theory Spec2Isabelle
  imports Main "HOL-Library.AList" "HOL-Library.Sublist"
begin

section \<open>JavaScript values\<close>

text \<open>
  The server handles JSON documents: the store is read from \<^verbatim>\<open>data/animals.json\<close>, a
  request body is parsed by \<^verbatim>\<open>express.json()\<close> or \<^verbatim>\<open>express.urlencoded()\<close>, and a
  query string is parsed into an object whose values are strings, arrays or objects.
  A JavaScript value is a JSON value; \<^verbatim>\<open>undefined\<close> only arises as the result of reading
  a property the object does not have, so a property read has type \<open>jsval option\<close> and
  \<open>None\<close> is \<^verbatim>\<open>undefined\<close>. An object is the list of its properties in the order
  in which JavaScript enumerates them.
  Strings are sequences of bytes (the UTF-8 text of the document).

  A number is a double. The program never computes with the numbers of a document:
  it tests them for truth, compares them with \<^verbatim>\<open>===\<close> and writes them as text. A
  finite number is therefore represented by the text that \<^verbatim>\<open>Number.prototype.toString\<close>
  gives for it, such as \<^verbatim>\<open>3\<close>, \<^verbatim>\<open>-0.5\<close> or \<^verbatim>\<open>1e+21\<close>; that text determines the number,
  up to the sign of zero, which is written \<^verbatim>\<open>0\<close> and which none of the three can
  tell. A document whose number is too large for a double gives an infinity;
  no document gives \<^verbatim>\<open>NaN\<close>.
\<close>

datatype number = Finite string | PlusInfinity | MinusInfinity

datatype jsval =
    JNull
  | JBool bool
  | JNum number
  | JStr string
  | JArr "jsval list"
  | JObj "(string \<times> jsval) list"

type_synonym obj = "(string \<times> jsval) list"

text \<open>\<^verbatim>\<open>o.k\<close>: the value of the property, \<^verbatim>\<open>undefined\<close> when there is none.\<close>

definition get :: "obj \<Rightarrow> string \<Rightarrow> jsval option" where
  "get ob k = map_of ob k"

text \<open>
  \<^verbatim>\<open>o.k = v\<close> for a key that is not an array index, as \<^verbatim>\<open>id\<close>: an existing property
  keeps its place, a new one goes last.
\<close>

definition set_prop :: "obj \<Rightarrow> string \<Rightarrow> jsval \<Rightarrow> obj" where
  "set_prop ob k v = AList.update k v ob"

text \<open>The conversion to boolean done by \<^verbatim>\<open>if (x)\<close> and \<^verbatim>\<open>!x\<close>.\<close>

fun truthy :: "jsval option \<Rightarrow> bool" where
  "truthy None = False"
| "truthy (Some JNull) = False"
| "truthy (Some (JBool b)) = b"
| "truthy (Some (JNum n)) = (n \<noteq> Finite ''0'')"
| "truthy (Some (JStr s)) = (s \<noteq> [])"
| "truthy (Some (JArr xs)) = True"
| "truthy (Some (JObj ps)) = True"

fun typeof :: "jsval option \<Rightarrow> string" where
  "typeof None = ''undefined''"
| "typeof (Some JNull) = ''object''"
| "typeof (Some (JBool b)) = ''boolean''"
| "typeof (Some (JNum n)) = ''number''"
| "typeof (Some (JStr s)) = ''string''"
| "typeof (Some (JArr xs)) = ''object''"
| "typeof (Some (JObj ps)) = ''object''"

fun Array_isArray :: "jsval option \<Rightarrow> bool" where
  "Array_isArray (Some (JArr xs)) = True"
| "Array_isArray _ = False"

text \<open>
  \<^verbatim>\<open>x === y\<close>. The two operands always come from different documents here (a stored
  record on one side, the request on the other), so two arrays or two objects are
  never the same reference and compare unequal.
\<close>

fun strict_eq :: "jsval option \<Rightarrow> jsval option \<Rightarrow> bool" where
  "strict_eq None None = True"
| "strict_eq (Some JNull) (Some JNull) = True"
| "strict_eq (Some (JBool a)) (Some (JBool b)) = (a = b)"
| "strict_eq (Some (JNum a)) (Some (JNum b)) = (a = b)"
| "strict_eq (Some (JStr a)) (Some (JStr b)) = (a = b)"
| "strict_eq _ _ = False"

subsection \<open>Numbers and values as strings\<close>

definition digit :: "nat \<Rightarrow> char" where
  "digit d = char_of (48 + d)"

text \<open>
  \<^verbatim>\<open>animals.length.toString()\<close>: the length of an array is an integer below \<open>2 ^ 32\<close>,
  and the text of such a number is its decimal digits.
\<close>

fun nat_toString :: "nat \<Rightarrow> string" where
  "nat_toString n =
     (if n < 10 then [digit n] else nat_toString (n div 10) @ [digit (n mod 10)])"

declare nat_toString.simps [simp del]

text \<open>\<^verbatim>\<open>Number.prototype.toString\<close> on the numbers of a document.\<close>

fun Number_toString :: "number \<Rightarrow> string" where
  "Number_toString (Finite text) = text"
| "Number_toString PlusInfinity = ''Infinity''"
| "Number_toString MinusInfinity = ''-Infinity''"

text \<open>The value of a decimal numeral, to state that \<open>nat_toString\<close> is the decimal string.\<close>

definition decimal_value :: "string \<Rightarrow> nat" where
  "decimal_value s = foldl (\<lambda>acc c. 10 * acc + (of_char c - 48)) 0 s"

fun join :: "string \<Rightarrow> string list \<Rightarrow> string" where
  "join sep [] = []"
| "join sep [s] = s"
| "join sep (s # t # ss) = s @ sep @ join sep (t # ss)"

text \<open>
  The string conversion that \<^verbatim>\<open>String.prototype.indexOf\<close> applies to its argument:
  an array is its elements joined by commas, with \<^verbatim>\<open>null\<close> as the empty string.
\<close>

fun ToString :: "jsval \<Rightarrow> string" where
  "ToString JNull = ''null''"
| "ToString (JBool b) = (if b then ''true'' else ''false'')"
| "ToString (JNum n) = Number_toString n"
| "ToString (JStr s) = s"
| "ToString (JArr xs) = join '','' (map (\<lambda>x. if x = JNull then [] else ToString x) xs)"
| "ToString (JObj ps) = ''[object Object]''"

subsection \<open>\<^verbatim>\<open>JSON.stringify(value, null, 2)\<close>\<close>

definition hex_digit :: "nat \<Rightarrow> char" where
  "hex_digit d = (if d < 10 then char_of (48 + d) else char_of (87 + d))"

definition quote_char :: "char \<Rightarrow> string" where
  "quote_char c =
     (if c = CHR 0x22 then [CHR 0x5C, CHR 0x22]
      else if c = CHR 0x5C then [CHR 0x5C, CHR 0x5C]
      else if c = CHR 0x08 then [CHR 0x5C, CHR ''b'']
      else if c = CHR 0x0C then [CHR 0x5C, CHR ''f'']
      else if c = CHR 0x0A then [CHR 0x5C, CHR ''n'']
      else if c = CHR 0x0D then [CHR 0x5C, CHR ''r'']
      else if c = CHR 0x09 then [CHR 0x5C, CHR ''t'']
      else if (of_char c :: nat) < 32
        then [CHR 0x5C, CHR ''u'', CHR ''0'', CHR ''0'',
              hex_digit (of_char c div 16), hex_digit (of_char c mod 16)]
      else [c])"

definition QuoteJSONString :: "string \<Rightarrow> string" where
  "QuoteJSONString s = CHR 0x22 # concat (map quote_char s) @ [CHR 0x22]"

text \<open>
  \<open>stringify ind v\<close> is the text of \<open>v\<close> at the current indentation \<open>ind\<close>, with a gap of
  two spaces: the members of a non-empty array or object are each on a line of their
  own, indented two spaces further, and the closing bracket is back at \<open>ind\<close>. A
  finite number is written in its own text, an infinity as \<^verbatim>\<open>null\<close>.
\<close>

fun stringify :: "string \<Rightarrow> jsval \<Rightarrow> string" where
  "stringify ind JNull = ''null''"
| "stringify ind (JBool b) = (if b then ''true'' else ''false'')"
| "stringify ind (JNum n) = (case n of Finite text \<Rightarrow> text | _ \<Rightarrow> ''null'')"
| "stringify ind (JStr s) = QuoteJSONString s"
| "stringify ind (JArr xs) =
     (if xs = [] then ''[]''
      else ''['' @ [CHR 0x0A] @ (ind @ ''  '')
           @ join ('','' @ [CHR 0x0A] @ (ind @ ''  '')) (map (stringify (ind @ ''  '')) xs)
           @ [CHR 0x0A] @ ind @ '']'')"
| "stringify ind (JObj ps) =
     (if ps = [] then ''{}''
      else ''{'' @ [CHR 0x0A] @ (ind @ ''  '')
           @ join ('','' @ [CHR 0x0A] @ (ind @ ''  ''))
               (map (\<lambda>p. QuoteJSONString (fst p) @ '': '' @ stringify (ind @ ''  '') (snd p)) ps)
           @ [CHR 0x0A] @ ind @ ''}'')"

definition JSON_stringify :: "jsval \<Rightarrow> string" where
  "JSON_stringify v = stringify [] v"

subsection \<open>\<^verbatim>\<open>JSON.parse\<close>\<close>

text \<open>
  The reader is \<^verbatim>\<open>JSON.parse\<close> on the texts that the server writes. Whitespace is
  skipped between tokens; a string ends at the first quote that no backslash
  precedes, with the escapes undone; the members of an object come in the order of
  the text. Outside the texts of \<^verbatim>\<open>JSON.stringify\<close> the reader is partial: it keeps the
  text of a number as it stands, and it refuses an escape \<^verbatim>\<open>\uXXXX\<close> above \<^verbatim>\<open>007F\<close>;
  \<^verbatim>\<open>JSON.stringify\<close> writes a number in the text of \<^verbatim>\<open>Number.prototype.toString\<close> and
  escapes control characters only. The first argument of \<open>read_value\<close> bounds the
  number of nested calls; \<open>JSON_parse\<close> gives it more than the length of the text.
\<close>

definition is_ws :: "char \<Rightarrow> bool" where
  "is_ws c \<longleftrightarrow> c = CHR '' '' \<or> c = CHR 0x0A \<or> c = CHR 0x0D \<or> c = CHR 0x09"

definition skip_ws :: "string \<Rightarrow> string" where
  "skip_ws s = dropWhile is_ws s"

definition is_digit :: "char \<Rightarrow> bool" where
  "is_digit c \<longleftrightarrow> c \<in> set ''0123456789''"

definition is_number_char :: "char \<Rightarrow> bool" where
  "is_number_char c \<longleftrightarrow> is_digit c \<or> c \<in> set ''-+.eE''"

definition hex_value :: "char \<Rightarrow> nat option" where
  "hex_value c =
     (let n = of_char c :: nat
      in if 48 \<le> n \<and> n \<le> 57 then Some (n - 48)
         else if 97 \<le> n \<and> n \<le> 102 then Some (n - 87)
         else if 65 \<le> n \<and> n \<le> 70 then Some (n - 55)
         else None)"

definition unescape :: "char \<Rightarrow> char option" where
  "unescape e =
     (if e = CHR 0x22 then Some (CHR 0x22)
      else if e = CHR 0x5C then Some (CHR 0x5C)
      else if e = CHR ''/'' then Some (CHR ''/'')
      else if e = CHR ''b'' then Some (CHR 0x08)
      else if e = CHR ''f'' then Some (CHR 0x0C)
      else if e = CHR ''n'' then Some (CHR 0x0A)
      else if e = CHR ''r'' then Some (CHR 0x0D)
      else if e = CHR ''t'' then Some (CHR 0x09)
      else None)"

definition cons_fst :: "'a \<Rightarrow> ('a list \<times> 'b) option \<Rightarrow> ('a list \<times> 'b) option" where
  "cons_fst x r = (case r of None \<Rightarrow> None | Some (xs, t) \<Rightarrow> Some (x # xs, t))"

fun read_string :: "string \<Rightarrow> (string \<times> string) option" where
  "read_string [] = None"
| "read_string (c # cs) =
     (if c = CHR 0x22 then Some ([], cs)
      else if c = CHR 0x5C then
        (case cs of
           [] \<Rightarrow> None
         | e # r \<Rightarrow>
             if e = CHR ''u'' then
               (case r of
                  a # b # x # y # r' \<Rightarrow>
                    (case (hex_value a, hex_value b, hex_value x, hex_value y) of
                       (Some h3, Some h2, Some h1, Some h0) \<Rightarrow>
                         if h3 = 0 \<and> h2 = 0 \<and> h1 < 8
                         then cons_fst (char_of (16 * h1 + h0)) (read_string r')
                         else None
                     | _ \<Rightarrow> None)
                | _ \<Rightarrow> None)
             else (case unescape e of
                     None \<Rightarrow> None
                   | Some ch \<Rightarrow> cons_fst ch (read_string r)))
      else cons_fst c (read_string cs))"

fun read_value :: "nat \<Rightarrow> string \<Rightarrow> (jsval \<times> string) option"
  and read_elements :: "nat \<Rightarrow> string \<Rightarrow> (jsval list \<times> string) option"
  and read_members :: "nat \<Rightarrow> string \<Rightarrow> ((string \<times> jsval) list \<times> string) option"
where
  "read_value 0 s = None"
| "read_value (Suc n) s =
     (case skip_ws s of
        [] \<Rightarrow> None
      | c # r \<Rightarrow>
          if c = CHR ''['' then
            (case skip_ws r of
               [] \<Rightarrow> None
             | d # r' \<Rightarrow>
                 if d = CHR '']'' then Some (JArr [], r')
                 else (case read_elements n (d # r') of
                         None \<Rightarrow> None
                       | Some (xs, t) \<Rightarrow> Some (JArr xs, t)))
          else if c = CHR ''{'' then
            (case skip_ws r of
               [] \<Rightarrow> None
             | d # r' \<Rightarrow>
                 if d = CHR ''}'' then Some (JObj [], r')
                 else (case read_members n (d # r') of
                         None \<Rightarrow> None
                       | Some (ps, t) \<Rightarrow> Some (JObj ps, t)))
          else if c = CHR 0x22 then
            (case read_string r of
               None \<Rightarrow> None
             | Some (str, t) \<Rightarrow> Some (JStr str, t))
          else if take 4 (c # r) = ''null'' then Some (JNull, drop 4 (c # r))
          else if take 4 (c # r) = ''true'' then Some (JBool True, drop 4 (c # r))
          else if take 5 (c # r) = ''false'' then Some (JBool False, drop 5 (c # r))
          else if c = CHR ''-'' \<or> is_digit c
            then Some (JNum (Finite (takeWhile is_number_char (c # r))),
                       dropWhile is_number_char (c # r))
          else None)"
| "read_elements 0 s = None"
| "read_elements (Suc n) s =
     (case read_value n s of
        None \<Rightarrow> None
      | Some (x, r) \<Rightarrow>
          (case skip_ws r of
             [] \<Rightarrow> None
           | c # r' \<Rightarrow>
               if c = CHR '']'' then Some ([x], r')
               else if c = CHR '','' then cons_fst x (read_elements n r')
               else None))"
| "read_members 0 s = None"
| "read_members (Suc n) s =
     (case skip_ws s of
        [] \<Rightarrow> None
      | c # r \<Rightarrow>
          if c = CHR 0x22 then
            (case read_string r of
               None \<Rightarrow> None
             | Some (k, r1) \<Rightarrow>
                 (case skip_ws r1 of
                    [] \<Rightarrow> None
                  | d # r2 \<Rightarrow>
                      if d = CHR '':'' then
                        (case read_value n r2 of
                           None \<Rightarrow> None
                         | Some (x, r3) \<Rightarrow>
                             (case skip_ws r3 of
                                [] \<Rightarrow> None
                              | e # r4 \<Rightarrow>
                                  if e = CHR ''}'' then Some ([(k, x)], r4)
                                  else if e = CHR '','' then cons_fst (k, x) (read_members n r4)
                                  else None))
                      else None))
          else None)"

definition JSON_parse :: "string \<Rightarrow> jsval option" where
  "JSON_parse text =
     (case read_value (Suc (length text)) text of
        None \<Rightarrow> None
      | Some (v, rest) \<Rightarrow> if skip_ws rest = [] then Some v else None)"


text \<open>
  The values that are written as themselves: every number in them is finite (an
  infinity is written \<^verbatim>\<open>null\<close>) and has the text of a number.
\<close>

fun readable :: "jsval \<Rightarrow> bool" where
  "readable JNull = True"
| "readable (JBool b) = True"
| "readable (JNum n) =
     (case n of
        Finite text \<Rightarrow>
          (case text of
             [] \<Rightarrow> False
           | c # cs \<Rightarrow> (c = CHR ''-'' \<or> is_digit c) \<and> list_all is_number_char cs)
      | _ \<Rightarrow> False)"
| "readable (JStr s) = True"
| "readable (JArr xs) = list_all readable xs"
| "readable (JObj ps) = list_all (\<lambda>p. readable (snd p)) ps"

text \<open>The nested calls that reading a value back takes at most.\<close>

fun cost :: "jsval \<Rightarrow> nat" where
  "cost (JArr xs) = Suc (sum_list (map (\<lambda>x. Suc (cost x)) xs))"
| "cost (JObj ps) = Suc (sum_list (map (\<lambda>p. Suc (cost (snd p))) ps))"
| "cost _ = 1"

section \<open>The server\<close>

text \<open>
  A failed property read or call throws a \<^verbatim>\<open>TypeError\<close>; \<^verbatim>\<open>fs.writeFileSync\<close> throws
  when the file cannot be written. An exception that leaves a route handler is
  answered by the framework with a server error.
\<close>

datatype type_error =
    forEach_is_not_a_function
  | indexOf_of_undefined
  | indexOf_is_not_a_function

datatype error = TypeError type_error | WriteError

subsection \<open>\<^verbatim>\<open>filterByQuery\<close>\<close>

text \<open>
  \<^verbatim>\<open>animal.personalityTraits.indexOf(trait) !== -1\<close>, for the value \<open>pt\<close> of
  \<^verbatim>\<open>animal.personalityTraits\<close>. Reading \<^verbatim>\<open>indexOf\<close> of \<^verbatim>\<open>undefined\<close> or
  \<^verbatim>\<open>null\<close> throws; a number, a boolean and an object parsed from JSON have no
  method \<^verbatim>\<open>indexOf\<close>, so the call throws; an array searches its elements with
  \<^verbatim>\<open>===\<close>; a string searches for the argument, converted to a string, as a substring.
\<close>

fun indexOf_found :: "jsval option \<Rightarrow> jsval \<Rightarrow> error + bool" where
  "indexOf_found None trait = Inl (TypeError indexOf_of_undefined)"
| "indexOf_found (Some JNull) trait = Inl (TypeError indexOf_of_undefined)"
| "indexOf_found (Some (JBool b)) trait = Inl (TypeError indexOf_is_not_a_function)"
| "indexOf_found (Some (JNum n)) trait = Inl (TypeError indexOf_is_not_a_function)"
| "indexOf_found (Some (JStr s)) trait = Inr (sublist (ToString trait) s)"
| "indexOf_found (Some (JArr xs)) trait = Inr (list_ex (\<lambda>x. strict_eq (Some x) (Some trait)) xs)"
| "indexOf_found (Some (JObj ps)) trait = Inl (TypeError indexOf_is_not_a_function)"

text \<open>
  \<^verbatim>\<open>filteredResults.filter(animal => animal.personalityTraits.indexOf(trait) !== -1)\<close>:
  the callback runs on each record in order and the first exception ends the filter.
\<close>

fun filter_trait :: "jsval \<Rightarrow> obj list \<Rightarrow> error + obj list" where
  "filter_trait trait [] = Inr []"
| "filter_trait trait (animal # rest) =
     (case indexOf_found (get animal ''personalityTraits'') trait of
        Inl e \<Rightarrow> Inl e
      | Inr keep \<Rightarrow>
          (case filter_trait trait rest of
             Inl e \<Rightarrow> Inl e
           | Inr kept \<Rightarrow> Inr (if keep then animal # kept else kept)))"

text \<open>\<^verbatim>\<open>personalityTraitsArray.forEach(trait => { filteredResults = ... })\<close>\<close>

fun forEach_trait :: "jsval list \<Rightarrow> obj list \<Rightarrow> error + obj list" where
  "forEach_trait [] filteredResults = Inr filteredResults"
| "forEach_trait (trait # traits) filteredResults =
     (case filter_trait trait filteredResults of
        Inl e \<Rightarrow> Inl e
      | Inr filteredResults' \<Rightarrow> forEach_trait traits filteredResults')"

definition filterByQuery :: "obj \<Rightarrow> obj list \<Rightarrow> error + obj list" where
  "filterByQuery query animalsArray =
     (case
        (if truthy (get query ''personalityTraits'') then
           (case get query ''personalityTraits'' of
              Some (JStr s) \<Rightarrow> forEach_trait [JStr s] animalsArray
            | Some (JArr personalityTraitsArray) \<Rightarrow>
                forEach_trait personalityTraitsArray animalsArray
            | _ \<Rightarrow> Inl (TypeError forEach_is_not_a_function))
         else Inr animalsArray)
      of
        Inl e \<Rightarrow> Inl e
      | Inr r1 \<Rightarrow>
          (let r2 = (if truthy (get query ''diet'')
                     then filter (\<lambda>animal. strict_eq (get animal ''diet'') (get query ''diet'')) r1
                     else r1);
               r3 = (if truthy (get query ''species'')
                     then filter (\<lambda>animal. strict_eq (get animal ''species'') (get query ''species'')) r2
                     else r2);
               r4 = (if truthy (get query ''name'')
                     then filter (\<lambda>animal. strict_eq (get animal ''name'') (get query ''name'')) r3
                     else r3)
           in Inr r4))"

subsection \<open>\<^verbatim>\<open>findById\<close>\<close>

text \<open>
  \<^verbatim>\<open>animalsArray.filter(animal => animal.id === id)[0]\<close>, where \<open>id'\<close> is the route
  parameter \<^verbatim>\<open>id\<close>, a string. Index 0 of an empty array is \<^verbatim>\<open>undefined\<close>.
\<close>

definition findById :: "string \<Rightarrow> obj list \<Rightarrow> obj option" where
  "findById id' animalsArray =
     (case filter (\<lambda>animal. strict_eq (get animal ''id'') (Some (JStr id'))) animalsArray of
        [] \<Rightarrow> None
      | result # _ \<Rightarrow> Some result)"

subsection \<open>\<^verbatim>\<open>validateAnimal\<close>\<close>

definition validateAnimal :: "obj \<Rightarrow> bool" where
  "validateAnimal animal =
     (if \<not> truthy (get animal ''name'') \<or> typeof (get animal ''name'') \<noteq> ''string'' then False
      else if \<not> truthy (get animal ''species'') \<or> typeof (get animal ''species'') \<noteq> ''string''
        then False
      else if \<not> truthy (get animal ''diet'') \<or> typeof (get animal ''diet'') \<noteq> ''string''
        then False
      else if \<not> truthy (get animal ''personalityTraits'')
              \<or> \<not> Array_isArray (get animal ''personalityTraits'')
        then False
      else True)"

subsection \<open>The store and \<^verbatim>\<open>createNewAnimal\<close>\<close>

text \<open>
  The state of the server: the module's array \<^verbatim>\<open>animals\<close>, the text of the file
  \<^verbatim>\<open>data/animals.json\<close>, and whether writing that file fails (a full disk, a missing
  permission), in which case \<^verbatim>\<open>fs.writeFileSync\<close> throws and leaves the file as it is.
\<close>

record server =
  animals :: "obj list"
  animals_json :: string
  write_fails :: bool

text \<open>
  \<^verbatim>\<open>createNewAnimal(body, animals)\<close>: the push comes first, so it stays when the write
  throws.
\<close>

definition createNewAnimal :: "obj \<Rightarrow> server \<Rightarrow> (error + obj) \<times> server" where
  "createNewAnimal body st =
     (let animal = body;
          st1 = st\<lparr>animals := animals st @ [animal]\<rparr>
      in if write_fails st1 then (Inl WriteError, st1)
         else (Inr animal,
               st1\<lparr>animals_json :=
                     JSON_stringify (JObj [(''animals'', JArr (map JObj (animals st1)))])\<rparr>))"

text \<open>
  \<^verbatim>\<open>const { animals } = require('./data/animals.json')\<close>: at start the store is the
  array under the key \<^verbatim>\<open>animals\<close> of the parsed file; its elements are the records.
\<close>

fun as_object :: "jsval \<Rightarrow> obj option" where
  "as_object (JObj ps) = Some ps"
| "as_object _ = None"

fun those_objects :: "jsval list \<Rightarrow> obj list option" where
  "those_objects [] = Some []"
| "those_objects (x # xs) =
     (case as_object x of
        None \<Rightarrow> None
      | Some a \<Rightarrow> (case those_objects xs of None \<Rightarrow> None | Some as \<Rightarrow> Some (a # as)))"

definition require_animals :: "string \<Rightarrow> obj list option" where
  "require_animals text =
     (case JSON_parse text of
        Some (JObj ps) \<Rightarrow>
          (case get ps ''animals'' of
             Some (JArr xs) \<Rightarrow> those_objects xs
           | _ \<Rightarrow> None)
      | _ \<Rightarrow> None)"


subsection \<open>The routes\<close>

datatype response =
    Json jsval
  | Send nat
  | Status_send nat string
  | Uncaught error

text \<open>
  \<^verbatim>\<open>app.get('/api/animals')\<close>; \<^verbatim>\<open>req.query\<close> is always an object, hence truthy.
\<close>

definition get_api_animals :: "obj \<Rightarrow> server \<Rightarrow> response" where
  "get_api_animals query st =
     (case filterByQuery query (animals st) of
        Inl e \<Rightarrow> Uncaught e
      | Inr results \<Rightarrow> Json (JArr (map JObj results)))"

text \<open>\<^verbatim>\<open>app.get('/api/animals/:id')\<close>; a record is an object, hence truthy.\<close>

definition get_api_animals_id :: "string \<Rightarrow> server \<Rightarrow> response" where
  "get_api_animals_id id' st =
     (case findById id' (animals st) of
        Some result \<Rightarrow> Json (JObj result)
      | None \<Rightarrow> Send 404)"

text \<open>
  \<^verbatim>\<open>app.post('/api/animals')\<close>: the id is written into the request body before the
  body is validated.
\<close>

definition post_api_animals :: "obj \<Rightarrow> server \<Rightarrow> response \<times> server" where
  "post_api_animals body st =
     (let body' = set_prop body ''id'' (JStr (nat_toString (length (animals st))))
      in if \<not> validateAnimal body'
         then (Status_send 400 ''The animal is not properly formatted.'', st)
         else (case createNewAnimal body' st of
                 (Inl e, st') \<Rightarrow> (Uncaught e, st')
               | (Inr animal, st') \<Rightarrow> (Json (JObj animal), st')))"

subsection \<open>Example records\<close>

definition rex :: obj where
  "rex = [(''id'', JStr ''0''), (''name'', JStr ''Rex''), (''species'', JStr ''Dog''),
          (''diet'', JStr ''omnivore''), (''personalityTraits'', JArr [JStr ''loyal''])]"

definition milo :: obj where
  "milo = [(''name'', JStr ''Milo''), (''species'', JStr ''Cat''), (''diet'', JStr ''carnivore''),
           (''personalityTraits'', JArr [JStr ''aloof'', JStr ''independent''])]"

definition seed :: server where
  "seed = \<lparr>animals = [rex], animals_json = [], write_fails = False\<rparr>"

text \<open>
  A candidate with fields beyond the required ones, of every kind of value, and the
  file after this candidate was posted to the store that holds Rex.
\<close>

definition nala :: obj where
  "nala = [(''name'', JStr ''Nala''), (''species'', JStr ''Lion''), (''diet'', JStr ''carnivore''),
           (''personalityTraits'', JArr [JStr ''proud'']),
           (''age'', JNum (Finite ''4'')), (''weight'', JNum (Finite ''126.5'')),
           (''steps'', JNum (Finite ''1e+21'')), (''tame'', JBool False), (''keeper'', JNull),
           (''note'', JStr (''says '' @ [CHR 0x22] @ ''hi'' @ [CHR 0x22, CHR 0x0A])),
           (''tags'', JArr []), (''home'', JObj [])]"

definition dq :: "string \<Rightarrow> string" where
  "dq s = CHR 0x22 # s @ [CHR 0x22]"

definition example_file :: string where
  "example_file = join [CHR 0x0A]
     [''{'',
      ''  '' @ dq ''animals'' @ '': ['',
      ''    {'',
      ''      '' @ dq ''id'' @ '': '' @ dq ''0'' @ '','',
      ''      '' @ dq ''name'' @ '': '' @ dq ''Rex'' @ '','',
      ''      '' @ dq ''species'' @ '': '' @ dq ''Dog'' @ '','',
      ''      '' @ dq ''diet'' @ '': '' @ dq ''omnivore'' @ '','',
      ''      '' @ dq ''personalityTraits'' @ '': ['',
      ''        '' @ dq ''loyal'',
      ''      ]'',
      ''    },'',
      ''    {'',
      ''      '' @ dq ''name'' @ '': '' @ dq ''Nala'' @ '','',
      ''      '' @ dq ''species'' @ '': '' @ dq ''Lion'' @ '','',
      ''      '' @ dq ''diet'' @ '': '' @ dq ''carnivore'' @ '','',
      ''      '' @ dq ''personalityTraits'' @ '': ['',
      ''        '' @ dq ''proud'',
      ''      ],'',
      ''      '' @ dq ''age'' @ '': 4,'',
      ''      '' @ dq ''weight'' @ '': 126.5,'',
      ''      '' @ dq ''steps'' @ '': 1e+21,'',
      ''      '' @ dq ''tame'' @ '': false,'',
      ''      '' @ dq ''keeper'' @ '': null,'',
      ''      '' @ dq ''note'' @ '': ''
         @ dq (''says '' @ [CHR 0x5C, CHR 0x22] @ ''hi'' @ [CHR 0x5C, CHR 0x22, CHR 0x5C] @ ''n'')
         @ '','',
      ''      '' @ dq ''tags'' @ '': [],'',
      ''      '' @ dq ''home'' @ '': {},'',
      ''      '' @ dq ''id'' @ '': '' @ dq ''1'',
      ''    }'',
      ''  ]'',
      ''}'']"

definition nameless_lion :: obj where
  "nameless_lion = [(''name'', JStr []), (''species'', JStr ''Lion''), (''diet'', JStr ''carnivore''),
                    (''personalityTraits'', JArr [JStr ''aloof''])]"

section \<open>The data model of the specification\<close>

text \<open>
  Every record of the store has a \<^verbatim>\<open>personalityTraits\<close> sequence; \<open>record_traits\<close> is
  that sequence.
\<close>

definition has_traits_array :: "obj \<Rightarrow> bool" where
  "has_traits_array animal =
     (case get animal ''personalityTraits'' of Some (JArr traits) \<Rightarrow> True | _ \<Rightarrow> False)"

definition record_traits :: "obj \<Rightarrow> jsval list" where
  "record_traits animal =
     (case get animal ''personalityTraits'' of Some (JArr traits) \<Rightarrow> traits | _ \<Rightarrow> [])"

text \<open>
  The value of a recognized query key, when the key is there, is one string or a
  sequence of strings.
\<close>

fun is_string :: "jsval \<Rightarrow> bool" where
  "is_string (JStr s) = True"
| "is_string _ = False"

fun query_value_ok :: "jsval option \<Rightarrow> bool" where
  "query_value_ok None = True"
| "query_value_ok (Some (JStr s)) = True"
| "query_value_ok (Some (JArr xs)) = list_all is_string xs"
| "query_value_ok _ = False"

definition recognized :: "string list" where
  "recognized = [''personalityTraits'', ''diet'', ''species'', ''name'']"

definition query_ok :: "obj \<Rightarrow> bool" where
  "query_ok query = list_all (\<lambda>k. query_value_ok (get query k)) recognized"

text \<open>
  The criteria as the specification words them, with one change: a key whose value
  is the empty string asks for nothing. A trait criterion asks for every requested
  trait among the record's traits; a \<^verbatim>\<open>diet\<close>, \<^verbatim>\<open>species\<close> or \<^verbatim>\<open>name\<close> criterion asks
  for a field equal to the requested string, which no field is when a sequence was
  given.
\<close>

definition spec_trait_criterion :: "obj \<Rightarrow> obj \<Rightarrow> bool" where
  "spec_trait_criterion query animal =
     (case get query ''personalityTraits'' of
        Some (JStr s) \<Rightarrow> s = [] \<or> JStr s \<in> set (record_traits animal)
      | Some (JArr ts) \<Rightarrow> list_all (\<lambda>t. t \<in> set (record_traits animal)) ts
      | _ \<Rightarrow> True)"

definition spec_field_criterion :: "string \<Rightarrow> obj \<Rightarrow> obj \<Rightarrow> bool" where
  "spec_field_criterion k query animal =
     (case get query k of
        Some (JStr s) \<Rightarrow> s = [] \<or> get animal k = Some (JStr s)
      | Some (JArr ts) \<Rightarrow> False
      | _ \<Rightarrow> True)"

definition spec_matches :: "obj \<Rightarrow> obj \<Rightarrow> bool" where
  "spec_matches query animal \<longleftrightarrow>
     spec_trait_criterion query animal \<and> spec_field_criterion ''diet'' query animal \<and>
     spec_field_criterion ''species'' query animal \<and> spec_field_criterion ''name'' query animal"

text \<open>The records a filter returned, none when it threw.\<close>

fun matches :: "error + obj list \<Rightarrow> obj set" where
  "matches (Inr results) = set results"
| "matches (Inl e) = {}"

text \<open>The query that asks for the given traits and nothing else.\<close>

definition traits_query :: "string list \<Rightarrow> obj" where
  "traits_query ts = [(''personalityTraits'', JArr (map JStr ts))]"

text \<open>
  The ids of a store, and the stores numbered in sequence: the record at index \<open>i\<close>
  has the decimal string of \<open>i\<close> as its id.
\<close>

definition ids :: "obj list \<Rightarrow> jsval option list" where
  "ids animalsArray = map (\<lambda>animal. get animal ''id'') animalsArray"

definition ids_sequential :: "obj list \<Rightarrow> bool" where
  "ids_sequential animalsArray \<longleftrightarrow>
     ids animalsArray = map (\<lambda>i. Some (JStr (nat_toString i))) [0..<length animalsArray]"

text \<open>A store with one record, whose id is not its index.\<close>

definition renumbered :: server where
  "renumbered = \<lparr>animals = [set_prop rex ''id'' (JStr ''1'')], animals_json = [],
                 write_fails = False\<rparr>"

section \<open>Properties of the values\<close>

lemma get_set_prop: "get (set_prop ob k v) k' = (if k' = k then Some v else get ob k')"
  by (simp add: get_def set_prop_def update_conv')

lemma typeof_string_iff: "typeof x = ''string'' \<longleftrightarrow> (\<exists>s. x = Some (JStr s))"
proof (cases x)
  case None
  then show ?thesis by simp
next
  case (Some v)
  then show ?thesis by (cases v) simp_all
qed

lemma Array_isArray_iff: "Array_isArray x \<longleftrightarrow> (\<exists>xs. x = Some (JArr xs))"
proof (cases x)
  case None
  then show ?thesis by simp
next
  case (Some v)
  then show ?thesis by (cases v) simp_all
qed

lemma strict_eq_JStr: "strict_eq x (Some (JStr s)) \<longleftrightarrow> x = Some (JStr s)"
proof (cases x)
  case None
  then show ?thesis by simp
next
  case (Some v)
  then show ?thesis by (cases v) auto
qed

lemma of_char_digit: "d < 10 \<Longrightarrow> (of_char (digit d) :: nat) = 48 + d"
  by (simp add: digit_def)

lemma decimal_value_snoc:
  "decimal_value (s @ [c]) = 10 * decimal_value s + (of_char c - 48)"
  by (simp add: decimal_value_def)

text \<open>Reading the digits of \<open>nat_toString n\<close> in base ten gives \<open>n\<close> back.\<close>

lemma decimal_value_nat_toString: "decimal_value (nat_toString n) = n"
proof (induction n rule: nat_toString.induct)
  case (1 n)
  show ?case
  proof (cases "n < 10")
    case True
    then show ?thesis
      by (simp add: nat_toString.simps [of n] decimal_value_def of_char_digit)
  next
    case False
    with "1" have "decimal_value (nat_toString (n div 10)) = n div 10" by simp
    with False show ?thesis
      by (simp add: nat_toString.simps [of n] decimal_value_snoc of_char_digit)
  qed
qed

lemma nat_toString_inj: "nat_toString m = nat_toString n \<Longrightarrow> m = n"
  by (metis decimal_value_nat_toString)

section \<open>The validator\<close>

lemma validateAnimal_set_id: "validateAnimal (set_prop body ''id'' v) = validateAnimal body"
  by (simp add: validateAnimal_def get_set_prop)

lemma validateAnimal_milo: "validateAnimal milo"
  by (simp add: validateAnimal_def milo_def get_def)

text \<open>
  C3, as amended. \<open>validateAnimal\<close> passes exactly the candidates whose \<^verbatim>\<open>name\<close>,
  \<^verbatim>\<open>species\<close> and \<^verbatim>\<open>diet\<close> are non-empty strings and whose \<^verbatim>\<open>personalityTraits\<close> is an
  array. The guard \<^verbatim>\<open>!animal.name\<close> rejects the empty string, which is falsy; nothing
  else about the strings is looked at, and the array may be empty.
\<close>

theorem validateAnimal_iff:
  "validateAnimal animal \<longleftrightarrow>
     (\<exists>name species diet traits.
        get animal ''name'' = Some (JStr name) \<and> name \<noteq> [] \<and>
        get animal ''species'' = Some (JStr species) \<and> species \<noteq> [] \<and>
        get animal ''diet'' = Some (JStr diet) \<and> diet \<noteq> [] \<and>
        get animal ''personalityTraits'' = Some (JArr traits))"
  unfolding validateAnimal_def typeof_string_iff Array_isArray_iff
  by auto

text \<open>
  The theorem at three candidates: a complete one, one with no traits in its array,
  and one whose diet is the empty string.
\<close>

theorem validateAnimal_iff_witness:
  "validateAnimal milo \<and> validateAnimal (set_prop milo ''personalityTraits'' (JArr []))
   \<and> \<not> validateAnimal (set_prop milo ''diet'' (JStr []))"
  using validateAnimal_iff [of milo]
    validateAnimal_iff [of "set_prop milo ''personalityTraits'' (JArr [])"]
    validateAnimal_iff [of "set_prop milo ''diet'' (JStr [])"]
  by (simp add: milo_def get_def set_prop_def)

text \<open>
  The claim as worded fails: this candidate has a \<^verbatim>\<open>name\<close>, a \<^verbatim>\<open>species\<close> and a
  \<^verbatim>\<open>diet\<close> of string type and an array of traits, its name is the empty string, and
  the validator rejects it.
\<close>

theorem validateAnimal_empty_name_counterexample:
  "typeof (get nameless_lion ''name'') = ''string'' \<and>
   typeof (get nameless_lion ''species'') = ''string'' \<and>
   typeof (get nameless_lion ''diet'') = ''string'' \<and>
   Array_isArray (get nameless_lion ''personalityTraits'') \<and>
   \<not> validateAnimal nameless_lion"
  by (simp add: nameless_lion_def get_def validateAnimal_def)

section \<open>Reading back what was written\<close>

text \<open>
  \<open>JSON_parse\<close> undoes \<open>JSON_stringify\<close> on every readable value: first the
  whitespace and the strings, then the values by induction, the elements of an array
  and the members of an object each by an induction on the list.
\<close>

lemma skip_ws_Nil [simp]: "skip_ws [] = []"
  by (simp add: skip_ws_def)

lemma skip_ws_to:
  "list_all is_ws w \<Longrightarrow> \<not> is_ws c \<Longrightarrow> skip_ws (w @ c # t) = c # t"
  by (induction w) (simp_all add: skip_ws_def)

lemma skip_ws_stay: "\<not> is_ws c \<Longrightarrow> skip_ws (c # t) = c # t"
  by (simp add: skip_ws_def)

lemma skip_ws_append: "list_all is_ws w \<Longrightarrow> skip_ws (w @ s) = skip_ws s"
  by (induction w) (simp_all add: skip_ws_def)

lemma hex_value_hex_digit: "d < 16 \<Longrightarrow> hex_value (hex_digit d) = Some d"
  by (simp add: hex_value_def hex_digit_def Let_def)

lemma hex_value_zero: "hex_value (CHR ''0'') = Some 0"
  by (simp add: hex_value_def)

lemma cons_fst_Some: "cons_fst x (Some (xs, t)) = Some (x # xs, t)"
  by (simp add: cons_fst_def)

lemma read_string_quote_char:
  "read_string (quote_char c @ t) = cons_fst c (read_string t)"
proof (cases "c = CHR 0x22 \<or> c = CHR 0x5C \<or> c = CHR 0x08 \<or> c = CHR 0x0C \<or> c = CHR 0x0A
                \<or> c = CHR 0x0D \<or> c = CHR 0x09")
  case True
  then show ?thesis
    by (auto simp: quote_char_def unescape_def)
next
  case False
  note plain = this
  show ?thesis
  proof (cases "(of_char c :: nat) < 32")
    case True
    let ?n = "of_char c :: nat"
    from True have hi: "?n div 16 < 16" and lo: "?n mod 16 < 16" and small: "?n div 16 < 8"
      by simp_all
    have again: "char_of (16 * (?n div 16) + ?n mod 16) = c"
      by simp
    from plain True have q: "quote_char c = [CHR 0x5C, CHR ''u'', CHR ''0'', CHR ''0'',
              hex_digit (?n div 16), hex_digit (?n mod 16)]"
      by (simp add: quote_char_def)
    show ?thesis
      unfolding q using small again
      by (simp add: hex_value_zero hex_value_hex_digit [OF hi] hex_value_hex_digit [OF lo])
  next
    case False
    with plain show ?thesis
      by (simp add: quote_char_def)
  qed
qed

lemma read_string_quoted:
  "read_string (concat (map quote_char s) @ CHR 0x22 # rest) = Some (s, rest)"
  by (induction s) (simp_all add: read_string_quote_char cons_fst_Some)

lemma read_value_skip: "list_all is_ws w \<Longrightarrow> read_value n (w @ s) = read_value n s"
  by (cases n) (simp_all add: skip_ws_append)

lemma read_elements_skip: "list_all is_ws w \<Longrightarrow> read_elements n (w @ s) = read_elements n s"
  by (cases n) (simp_all add: read_value_skip)

lemma read_members_skip: "list_all is_ws w \<Longrightarrow> read_members n (w @ s) = read_members n s"
  by (cases n) (simp_all add: skip_ws_append)

lemma join_Cons: "join sep (t # ts) = t @ (if ts = [] then [] else sep @ join sep ts)"
  by (cases ts) simp_all

lemma stringify_start:
  assumes "readable v"
  shows "\<exists>c t. stringify ind v = c # t \<and> \<not> is_ws c \<and> c \<noteq> CHR '']'' \<and> c \<noteq> CHR ''}''"
proof (cases v)
  case (JNum n)
  with assms show ?thesis
    by (auto simp: is_ws_def is_digit_def split: number.splits list.splits)
qed (auto simp: is_ws_def QuoteJSONString_def)

lemma read_value_leaf:
  assumes "readable v" and "takeWhile is_number_char rest = []"
    and "\<forall>xs. v \<noteq> JArr xs" and "\<forall>ps. v \<noteq> JObj ps"
  shows "read_value (Suc n) (stringify ind v @ rest) = Some (v, rest)"
proof (cases v)
  case JNull
  then show ?thesis by (simp add: skip_ws_stay is_ws_def)
next
  case (JBool b)
  then show ?thesis by (simp add: skip_ws_stay is_ws_def)
next
  case (JNum x)
  with assms(1) obtain c cs where shape: "x = Finite (c # cs)"
    and start: "c = CHR ''-'' \<or> is_digit c" and more: "list_all is_number_char cs"
    by (auto split: number.splits list.splits)
  from start have c: "\<not> is_ws c" "c \<noteq> CHR ''[''" "c \<noteq> CHR ''{''" "c \<noteq> CHR 0x22"
    "c \<noteq> CHR ''n''" "c \<noteq> CHR ''t''" "c \<noteq> CHR ''f''" "is_number_char c"
    by (auto simp: is_ws_def is_digit_def is_number_char_def)
  from more assms(2) have "takeWhile is_number_char (cs @ rest) = cs"
    "dropWhile is_number_char (cs @ rest) = rest"
    by (simp_all add: list_all_iff takeWhile_append2 dropWhile_append2 takeWhile_eq_Nil_iff
          dropWhile_eq_self_iff)
  with JNum shape start c show ?thesis
    by (simp add: skip_ws_stay)
next
  case (JStr s)
  then show ?thesis
    by (simp add: skip_ws_stay is_ws_def QuoteJSONString_def read_string_quoted)
next
  case (JArr xs)
  with assms(3) show ?thesis by simp
next
  case (JObj ps)
  with assms(4) show ?thesis by simp
qed

lemma not_number_char [simp]:
  "\<not> is_number_char (CHR '','')" "\<not> is_number_char (CHR 0x0A)"
  by (simp_all add: is_number_char_def is_digit_def)

lemma ws_chars [simp]:
  "is_ws (CHR 0x0A)" "is_ws (CHR '' '')" "\<not> is_ws (CHR '']'')" "\<not> is_ws (CHR ''}'')"
  "\<not> is_ws (CHR '','')" "\<not> is_ws (CHR '':'')" "\<not> is_ws (CHR 0x22)"
  "\<not> is_ws (CHR ''['')" "\<not> is_ws (CHR ''{'')"
  by (simp_all add: is_ws_def)

lemma skip_ws_line:
  "list_all is_ws ind \<Longrightarrow> \<not> is_ws c \<Longrightarrow> skip_ws (CHR 0x0A # ind @ c # rest) = c # rest"
  using skip_ws_to [of "CHR 0x0A # ind" c rest] by simp

lemma read_elements_join:
  assumes each: "\<And>x ind rest n. x \<in> set (y # ys) \<Longrightarrow> readable x \<Longrightarrow> list_all is_ws ind \<Longrightarrow>
      takeWhile is_number_char rest = [] \<Longrightarrow> cost x \<le> n \<Longrightarrow>
      read_value n (stringify ind x @ rest) = Some (x, rest)"
    and "list_all readable (y # ys)" and "list_all is_ws ind" and "list_all is_ws ind'"
    and "sum_list (map (\<lambda>x. Suc (cost x)) (y # ys)) \<le> n"
  shows "read_elements n
           (join (CHR '','' # CHR 0x0A # ind') (map (stringify ind') (y # ys))
              @ CHR 0x0A # ind @ CHR '']'' # rest) = Some (y # ys, rest)"
  using assms
proof (induction ys arbitrary: y n)
  case Nil
  from Nil.prems(5) obtain m where n: "n = Suc m" and m: "cost y \<le> m"
    by (cases n) simp_all
  from Nil.prems(2,4) m
  have "read_value m (stringify ind' y @ CHR 0x0A # ind @ CHR '']'' # rest)
          = Some (y, CHR 0x0A # ind @ CHR '']'' # rest)"
    by (intro Nil.prems(1)) simp_all
  moreover from Nil.prems(3)
  have "skip_ws (CHR 0x0A # ind @ CHR '']'' # rest) = CHR '']'' # rest"
    by (simp add: skip_ws_line)
  ultimately show ?case
    by (simp add: n)
next
  case (Cons z zs)
  let ?sep = "CHR '','' # CHR 0x0A # ind'"
  let ?tail = "join ?sep (map (stringify ind') (z # zs)) @ CHR 0x0A # ind @ CHR '']'' # rest"
  from Cons.prems(5) obtain m where n: "n = Suc m" and m: "cost y \<le> m"
    and more: "sum_list (map (\<lambda>x. Suc (cost x)) (z # zs)) \<le> m"
    by (cases n) simp_all
  from Cons.prems(2,4) m
  have first: "read_value m (stringify ind' y @ ?sep @ ?tail) = Some (y, ?sep @ ?tail)"
    by (intro Cons.prems(1)) simp_all
  have comma: "skip_ws (?sep @ ?tail) = CHR '','' # CHR 0x0A # ind' @ ?tail"
    by (simp add: skip_ws_stay)
  have "read_elements m ?tail = Some (z # zs, rest)"
    using Cons.prems(2,3,4) more by (intro Cons.IH Cons.prems(1)) simp_all
  moreover from Cons.prems(4)
  have "read_elements m ((CHR 0x0A # ind') @ ?tail) = read_elements m ?tail"
    by (intro read_elements_skip) simp
  ultimately have rest: "read_elements m (CHR 0x0A # ind' @ ?tail) = Some (z # zs, rest)"
    by simp
  have "join ?sep (map (stringify ind') (y # z # zs)) @ CHR 0x0A # ind @ CHR '']'' # rest
          = stringify ind' y @ ?sep @ ?tail"
    by simp
  with first comma rest show ?case
    by (simp add: n cons_fst_Some del: join.simps)
qed

lemma read_members_quote:
  assumes "read_string r = Some (k, r1)" and "skip_ws r1 = CHR '':'' # r2"
    and "read_value m r2 = Some (x, r3)"
  shows "read_members (Suc m) (CHR 0x22 # r)
           = (case skip_ws r3 of
                [] \<Rightarrow> None
              | e # r4 \<Rightarrow>
                  if e = CHR ''}'' then Some ([(k, x)], r4)
                  else if e = CHR '','' then cons_fst (k, x) (read_members m r4)
                  else None)"
  using assms by (simp add: skip_ws_stay)

lemma read_members_step:
  assumes "read_value m (stringify ind' x @ tail) = Some (x, tail)"
  shows "read_members (Suc m) (QuoteJSONString k @ '': '' @ stringify ind' x @ tail)
           = (case skip_ws tail of
                [] \<Rightarrow> None
              | e # r4 \<Rightarrow>
                  if e = CHR ''}'' then Some ([(k, x)], r4)
                  else if e = CHR '','' then cons_fst (k, x) (read_members m r4)
                  else None)"
proof -
  let ?r1 = "CHR '':'' # CHR '' '' # stringify ind' x @ tail"
  let ?r2 = "CHR '' '' # stringify ind' x @ tail"
  have key: "read_string (concat (map quote_char k) @ CHR 0x22 # ?r1) = Some (k, ?r1)"
    by (rule read_string_quoted)
  have colon: "skip_ws ?r1 = CHR '':'' # ?r2"
    by (simp add: skip_ws_stay)
  have "read_value m ([CHR '' ''] @ stringify ind' x @ tail)
      = read_value m (stringify ind' x @ tail)"
    by (intro read_value_skip) simp
  with assms have val: "read_value m ?r2 = Some (x, tail)"
    by simp
  have "QuoteJSONString k @ '': '' @ stringify ind' x @ tail
      = CHR 0x22 # concat (map quote_char k) @ CHR 0x22 # ?r1"
    by (simp add: QuoteJSONString_def)
  then show ?thesis
    using read_members_quote [OF key colon val] by simp
qed

lemma read_members_join:
  assumes each: "\<And>p ind rest n. p \<in> set (q # qs) \<Longrightarrow> readable (snd p) \<Longrightarrow> list_all is_ws ind \<Longrightarrow>
      takeWhile is_number_char rest = [] \<Longrightarrow> cost (snd p) \<le> n \<Longrightarrow>
      read_value n (stringify ind (snd p) @ rest) = Some (snd p, rest)"
    and "list_all (\<lambda>p. readable (snd p)) (q # qs)" and "list_all is_ws ind" and "list_all is_ws ind'"
    and "sum_list (map (\<lambda>p. Suc (cost (snd p))) (q # qs)) \<le> n"
  shows "read_members n
           (join (CHR '','' # CHR 0x0A # ind')
              (map (\<lambda>p. QuoteJSONString (fst p) @ '': '' @ stringify ind' (snd p)) (q # qs))
              @ CHR 0x0A # ind @ CHR ''}'' # rest) = Some (q # qs, rest)"
  using assms
proof (induction qs arbitrary: q n)
  case Nil
  from Nil.prems(5) obtain m where n: "n = Suc m" and m: "cost (snd q) \<le> m"
    by (cases n) simp_all
  let ?tail = "CHR 0x0A # ind @ CHR ''}'' # rest"
  from Nil.prems(2,4) m
  have "read_value m (stringify ind' (snd q) @ ?tail) = Some (snd q, ?tail)"
    by (intro Nil.prems(1)) simp_all
  from read_members_step [OF this, of "fst q"] Nil.prems(3)
  show ?case
    by (simp add: n skip_ws_line)
next
  case (Cons z zs)
  let ?sep = "CHR '','' # CHR 0x0A # ind'"
  let ?f = "\<lambda>p. QuoteJSONString (fst p) @ '': '' @ stringify ind' (snd p)"
  let ?tail = "join ?sep (map ?f (z # zs)) @ CHR 0x0A # ind @ CHR ''}'' # rest"
  from Cons.prems(5) obtain m where n: "n = Suc m" and m: "cost (snd q) \<le> m"
    and more: "sum_list (map (\<lambda>p. Suc (cost (snd p))) (z # zs)) \<le> m"
    by (cases n) simp_all
  from Cons.prems(2,4) m
  have first: "read_value m (stringify ind' (snd q) @ ?sep @ ?tail) = Some (snd q, ?sep @ ?tail)"
    by (intro Cons.prems(1)) simp_all
  have "read_members m ?tail = Some (z # zs, rest)"
    using Cons.prems(2,3,4) more by (intro Cons.IH Cons.prems(1)) simp_all
  moreover from Cons.prems(4)
  have "read_members m ((CHR 0x0A # ind') @ ?tail) = read_members m ?tail"
    by (intro read_members_skip) simp
  ultimately have others: "read_members m (CHR 0x0A # ind' @ ?tail) = Some (z # zs, rest)"
    by simp
  have "join ?sep (map ?f (q # z # zs)) @ CHR 0x0A # ind @ CHR ''}'' # rest
          = QuoteJSONString (fst q) @ '': '' @ stringify ind' (snd q) @ ?sep @ ?tail"
    by simp
  with read_members_step [OF first, of "fst q"] others show ?case
    by (simp add: n cons_fst_Some skip_ws_stay del: join.simps read_members.simps)
qed

lemma cost_pos: "0 < cost v"
  by (cases v) simp_all

lemma read_value_leaf_fuel:
  assumes "readable v" and "takeWhile is_number_char rest = []"
    and "\<forall>xs. v \<noteq> JArr xs" and "\<forall>ps. v \<noteq> JObj ps" and "cost v \<le> n"
  shows "read_value n (stringify ind v @ rest) = Some (v, rest)"
proof -
  from assms(5) cost_pos [of v] obtain m where "n = Suc m"
    by (cases n) simp_all
  with read_value_leaf [OF assms(1-4)] show ?thesis
    by simp
qed

lemma read_value_stringify:
  "readable v \<Longrightarrow> list_all is_ws ind \<Longrightarrow> takeWhile is_number_char rest = [] \<Longrightarrow>
   cost v \<le> n \<Longrightarrow> read_value n (stringify ind v @ rest) = Some (v, rest)"
proof (induction v arbitrary: ind rest n)
  case (JArr xs)
  from JArr.prems(4) obtain m where n: "n = Suc m"
    and m: "sum_list (map (\<lambda>x. Suc (cost x)) xs) \<le> m"
    by (cases n) simp_all
  show ?case
  proof (cases xs)
    case Nil
    then show ?thesis
      by (simp add: n skip_ws_stay)
  next
    case (Cons y ys)
    let ?ind' = "ind @ ''  ''"
    let ?body = "join (CHR '','' # CHR 0x0A # ?ind') (map (stringify ?ind') (y # ys))
                   @ CHR 0x0A # ind @ CHR '']'' # rest"
    from JArr.prems(2) have ws: "list_all is_ws ?ind'"
      by simp
    from JArr.prems(1) Cons have ok: "list_all readable (y # ys)"
      by simp
    then have "readable y" by simp
    from stringify_start [OF this, of ?ind'] obtain c t
      where start: "stringify ?ind' y = c # t" "\<not> is_ws c" "c \<noteq> CHR '']''"
      by blast
    then obtain t' where body: "?body = c # t'"
      by (simp add: join_Cons)
    have elements: "read_elements m ?body = Some (y # ys, rest)"
      using ok JArr.prems(2) ws m Cons
      by (intro read_elements_join JArr.IH) simp_all
    have "stringify ind (JArr xs) @ rest = CHR ''['' # (CHR 0x0A # ?ind') @ ?body"
      using Cons by simp
    moreover have "skip_ws ((CHR 0x0A # ?ind') @ ?body) = ?body"
      unfolding body using ws start(2) by (intro skip_ws_to) simp_all
    ultimately show ?thesis
      using elements start(3) body Cons
      by (simp add: n skip_ws_stay del: join.simps stringify.simps)
  qed
next
  case (JObj ps)
  from JObj.prems(4) obtain m where n: "n = Suc m"
    and m: "sum_list (map (\<lambda>p. Suc (cost (snd p))) ps) \<le> m"
    by (cases n) simp_all
  show ?case
  proof (cases ps)
    case Nil
    then show ?thesis
      by (simp add: n skip_ws_stay)
  next
    case (Cons q qs)
    let ?ind' = "ind @ ''  ''"
    let ?f = "\<lambda>p. QuoteJSONString (fst p) @ '': '' @ stringify ?ind' (snd p)"
    let ?body = "join (CHR '','' # CHR 0x0A # ?ind') (map ?f (q # qs))
                   @ CHR 0x0A # ind @ CHR ''}'' # rest"
    from JObj.prems(2) have ws: "list_all is_ws ?ind'"
      by simp
    from JObj.prems(1) Cons have ok: "list_all (\<lambda>p. readable (snd p)) (q # qs)"
      by simp
    obtain t' where body: "?body = CHR 0x22 # t'"
      by (simp add: join_Cons QuoteJSONString_def)
    have each: "read_value k (stringify i (snd p) @ r) = Some (snd p, r)"
      if "p \<in> set (q # qs)" "readable (snd p)" "list_all is_ws i"
        "takeWhile is_number_char r = []" "cost (snd p) \<le> k" for p i r k
    proof -
      from that(1) Cons have "p \<in> set ps" by simp
      moreover have "snd p \<in> Basic_BNFs.snds p"
        by (cases p) simp
      ultimately show ?thesis
        using that(2-5) by (intro JObj.IH)
    qed
    have members: "read_members m ?body = Some (q # qs, rest)"
      using ok JObj.prems(2) ws m Cons
      by (intro read_members_join each) simp_all
    have "stringify ind (JObj ps) @ rest = CHR ''{'' # (CHR 0x0A # ?ind') @ ?body"
      using Cons by simp
    moreover have "skip_ws ((CHR 0x0A # ?ind') @ ?body) = ?body"
      unfolding body using ws by (intro skip_ws_to) simp_all
    ultimately show ?thesis
      using members body Cons
      by (simp add: n skip_ws_stay del: join.simps stringify.simps)
  qed
next
  case JNull
  then show ?case by (intro read_value_leaf_fuel) simp_all
next
  case (JBool b)
  then show ?case by (intro read_value_leaf_fuel) simp_all
next
  case (JNum x)
  then show ?case by (intro read_value_leaf_fuel) simp_all
next
  case (JStr s)
  then show ?case by (intro read_value_leaf_fuel) simp_all
qed

lemma length_join:
  "length (join sep ts) = sum_list (map length ts) + (length ts - 1) * length sep"
  by (induction sep ts rule: join.induct) simp_all

lemma cost_sum_bound:
  assumes "\<And>x. x \<in> set xs \<Longrightarrow> c x \<le> Suc (length (f x))"
  shows "sum_list (map (\<lambda>x. Suc (c x)) xs) \<le> sum_list (map length (map f xs)) + 2 * length xs"
  using assms
proof (induction xs)
  case Nil
  then show ?case by simp
next
  case (Cons x xs)
  from Cons.prems have "c x \<le> Suc (length (f x))" by simp
  moreover from Cons.prems
  have "sum_list (map (\<lambda>x. Suc (c x)) xs) \<le> sum_list (map length (map f xs)) + 2 * length xs"
    by (intro Cons.IH) simp
  ultimately show ?case by simp
qed

lemma bracket_length:
  assumes "ts \<noteq> []" and "2 \<le> length sep"
  shows "sum_list (map length ts) + 2 * length ts
           \<le> length (a # b # i @ join sep ts @ c # j @ [d])"
proof -
  from assms(1) have "1 \<le> length ts"
    by (cases ts) simp_all
  then obtain k where k: "length ts = Suc k"
    by (cases "length ts") simp_all
  from assms(2) have mono: "k * 2 \<le> k * length sep"
    by (rule mult_le_mono2)
  have "length (a # b # i @ join sep ts @ c # j @ [d])
      = sum_list (map length ts) + k * length sep + length i + length j + 4"
    using k by (simp add: length_join)
  moreover have "2 * length ts = 2 * k + 2"
    using k by simp
  ultimately show ?thesis
    using mono by linarith
qed

lemma cost_le_length: "cost v \<le> Suc (length (stringify ind v))"
proof (induction v arbitrary: ind)
  case (JArr xs)
  show ?case
  proof (cases "xs = []")
    case True
    then show ?thesis by simp
  next
    case False
    let ?ind' = "ind @ ''  ''"
    let ?ts = "map (stringify ?ind') xs"
    have "sum_list (map (\<lambda>x. Suc (cost x)) xs) \<le> sum_list (map length ?ts) + 2 * length xs"
      by (intro cost_sum_bound JArr.IH)
    moreover have "sum_list (map length ?ts) + 2 * length ?ts
        \<le> length (CHR ''['' # CHR 0x0A # ?ind' @ join (CHR '','' # CHR 0x0A # ?ind') ?ts
                    @ CHR 0x0A # ind @ '']'')"
      using False by (intro bracket_length) simp_all
    ultimately show ?thesis
      using False by simp
  qed
next
  case (JObj ps)
  show ?case
  proof (cases "ps = []")
    case True
    then show ?thesis by simp
  next
    case False
    let ?ind' = "ind @ ''  ''"
    let ?f = "\<lambda>p. QuoteJSONString (fst p) @ '': '' @ stringify ?ind' (snd p)"
    let ?ts = "map ?f ps"
    have "cost (snd p) \<le> Suc (length (?f p))" if "p \<in> set ps" for p
    proof -
      have "snd p \<in> Basic_BNFs.snds p" by (cases p) simp
      with that have "cost (snd p) \<le> Suc (length (stringify ?ind' (snd p)))"
        by (rule JObj.IH)
      then show ?thesis by simp
    qed
    then have "sum_list (map (\<lambda>p. Suc (cost (snd p))) ps)
        \<le> sum_list (map length ?ts) + 2 * length ps"
      by (intro cost_sum_bound)
    moreover have "sum_list (map length ?ts) + 2 * length ?ts
        \<le> length (CHR ''{'' # CHR 0x0A # ?ind' @ join (CHR '','' # CHR 0x0A # ?ind') ?ts
                    @ CHR 0x0A # ind @ ''}'')"
      using False by (intro bracket_length) simp_all
    ultimately show ?thesis
      using False by simp
  qed
qed simp_all

lemma JSON_parse_stringify:
  assumes "readable v"
  shows "JSON_parse (JSON_stringify v) = Some v"
proof -
  have "read_value (Suc (length (stringify [] v))) (stringify [] v @ []) = Some (v, [])"
    using assms by (intro read_value_stringify cost_le_length) simp_all
  then show ?thesis
    by (simp add: JSON_parse_def JSON_stringify_def)
qed

lemma those_objects_JObj: "those_objects (map JObj animalsArray) = Some animalsArray"
  by (induction animalsArray) simp_all

lemma require_animals_stringify:
  assumes "list_all (\<lambda>animal. readable (JObj animal)) animalsArray"
  shows "require_animals (JSON_stringify (JObj [(''animals'', JArr (map JObj animalsArray))]))
           = Some animalsArray"
proof -
  from assms have "readable (JObj [(''animals'', JArr (map JObj animalsArray))])"
    by (simp add: list_all_iff)
  then show ?thesis
    by (simp add: require_animals_def JSON_parse_stringify get_def those_objects_JObj)
qed

section \<open>Creating a record\<close>

text \<open>
  The three ways the POST route ends. The validator does not read \<^verbatim>\<open>id\<close>, so it
  decides the same on the candidate as on the body that carries the new id.
\<close>

lemma post_api_animals_eq:
  "post_api_animals body st =
     (let body' = set_prop body ''id'' (JStr (nat_toString (length (animals st))))
      in if \<not> validateAnimal body
         then (Status_send 400 ''The animal is not properly formatted.'', st)
         else if write_fails st
         then (Uncaught WriteError, st\<lparr>animals := animals st @ [body']\<rparr>)
         else (Json (JObj body'),
               st\<lparr>animals := animals st @ [body'],
                  animals_json :=
                    JSON_stringify (JObj [(''animals'', JArr (map JObj (animals st @ [body'])))])\<rparr>))"
  by (simp add: post_api_animals_def createNewAnimal_def validateAnimal_set_id Let_def)

lemma nat_toString_5: "nat_toString 5 = ''5''"
  by code_simp

lemma nat_toString_1: "nat_toString (Suc 0) = ''1''"
  by code_simp

lemma post_milo_seed:
  "post_api_animals milo seed =
     (Json (JObj (set_prop milo ''id'' (JStr ''1''))),
      seed\<lparr>animals := [rex, set_prop milo ''id'' (JStr ''1'')],
           animals_json := JSON_stringify
             (JObj [(''animals'', JArr [JObj rex, JObj (set_prop milo ''id'' (JStr ''1''))])])\<rparr>)"
  by (simp add: post_api_animals_eq validateAnimal_milo seed_def nat_toString_1 Let_def)

text \<open>
  C9. A candidate that fails validation is answered with status 400 and the message
  of the route, and the state of the server is the one before the request: nothing
  is appended to \<^verbatim>\<open>animals\<close> and the file is not written.
\<close>

theorem post_api_animals_invalid:
  assumes "\<not> validateAnimal body"
  shows "post_api_animals body st = (Status_send 400 ''The animal is not properly formatted.'', st)"
  using assms by (simp add: post_api_animals_eq)

theorem post_api_animals_invalid_witness:
  "\<not> validateAnimal nameless_lion \<and>
   post_api_animals nameless_lion seed
     = (Status_send 400 ''The animal is not properly formatted.'', seed)"
proof -
  have h: "\<not> validateAnimal nameless_lion"
    by (simp add: nameless_lion_def get_def validateAnimal_def)
  show ?thesis using h post_api_animals_invalid [OF h, of seed] by simp
qed

text \<open>
  C2. When the POST route answers with a record, that record is the request body
  with \<^verbatim>\<open>id\<close> set to the decimal string of the length the store had before, the
  digits read in base ten give that length back, a store of length 5 gives the id
  \<^verbatim>\<open>"5"\<close>, and the record is the one appended to the store.
\<close>

theorem post_api_animals_id:
  assumes "post_api_animals body st = (Json r, st')"
  shows "\<exists>animal. r = JObj animal
           \<and> animal = set_prop body ''id'' (JStr (nat_toString (length (animals st))))
           \<and> get animal ''id'' = Some (JStr (nat_toString (length (animals st))))
           \<and> decimal_value (nat_toString (length (animals st))) = length (animals st)
           \<and> (length (animals st) = 5 \<longrightarrow> get animal ''id'' = Some (JStr ''5''))
           \<and> animals st' = animals st @ [animal]"
proof -
  from assms show ?thesis
    by (auto simp: post_api_animals_eq Let_def get_set_prop decimal_value_nat_toString
                   nat_toString_5 split: if_splits)
qed

theorem post_api_animals_id_witness:
  "post_api_animals milo seed
     = (Json (JObj (set_prop milo ''id'' (JStr ''1''))), snd (post_api_animals milo seed))
   \<and> get (set_prop milo ''id'' (JStr ''1'')) ''id'' = Some (JStr ''1'')
   \<and> animals (snd (post_api_animals milo seed)) = animals seed @ [set_prop milo ''id'' (JStr ''1'')]"
proof -
  have h: "post_api_animals milo seed
     = (Json (JObj (set_prop milo ''id'' (JStr ''1''))), snd (post_api_animals milo seed))"
    by (simp add: post_milo_seed)
  show ?thesis
    using h post_api_animals_id [OF h] by (simp add: seed_def nat_toString_1)
qed

text \<open>
  The file after Nala was posted to the store that holds Rex, letter by letter, and
  the layout of the file for any store that is not empty.
\<close>

lemma validateAnimal_nala: "validateAnimal nala"
  by (simp add: validateAnimal_def nala_def get_def)

lemma post_nala_seed:
  "post_api_animals nala seed =
     (Json (JObj (set_prop nala ''id'' (JStr ''1''))),
      seed\<lparr>animals := [rex, set_prop nala ''id'' (JStr ''1'')],
           animals_json := JSON_stringify
             (JObj [(''animals'', JArr [JObj rex, JObj (set_prop nala ''id'' (JStr ''1''))])])\<rparr>)"
  by (simp add: post_api_animals_eq validateAnimal_nala seed_def nat_toString_1 Let_def)

lemma example_file_text:
  "JSON_stringify (JObj [(''animals'', JArr [JObj rex, JObj (set_prop nala ''id'' (JStr ''1''))])])
     = example_file"
  by code_simp

lemma readable_rex_nala:
  "list_all (\<lambda>animal. readable (JObj animal)) [rex, set_prop nala ''id'' (JStr ''1'')]"
  by code_simp

lemma stringify_store:
  assumes "animalsArray \<noteq> []"
  shows "JSON_stringify (JObj [(''animals'', JArr (map JObj animalsArray))])
     = ''{'' @ [CHR 0x0A] @ ''  '' @ QuoteJSONString ''animals'' @ '': ['' @ [CHR 0x0A] @ ''    ''
       @ join ('','' @ [CHR 0x0A] @ ''    '')
           (map (\<lambda>animal. stringify ''    '' (JObj animal)) animalsArray)
       @ [CHR 0x0A] @ ''  ]'' @ [CHR 0x0A] @ ''}''"
  using assms by (simp add: JSON_stringify_def comp_def)

text \<open>
  C4. When the POST route answers with a record, the text of the file is
  \<^verbatim>\<open>JSON.stringify({ animals: animals }, null, 2)\<close> for the store as it is after the
  append: the key \<^verbatim>\<open>animals\<close> indented by two spaces, under it the records of the new
  store in their order, each at an indentation of four and separated by a comma
  and a line break. When the records are readable, parsing the file gives the
  envelope back and the start of the server loads from it exactly the store in
  memory. The text does not depend on what the file held before.
\<close>

theorem post_api_animals_file:
  assumes "post_api_animals body st = (Json r, st')"
  shows "animals_json st' = JSON_stringify (JObj [(''animals'', JArr (map JObj (animals st')))])
         \<and> animals_json st'
             = ''{'' @ [CHR 0x0A] @ ''  '' @ QuoteJSONString ''animals'' @ '': ['' @ [CHR 0x0A] @ ''    ''
               @ join ('','' @ [CHR 0x0A] @ ''    '')
                   (map (\<lambda>animal. stringify ''    '' (JObj animal)) (animals st'))
               @ [CHR 0x0A] @ ''  ]'' @ [CHR 0x0A] @ ''}''
         \<and> (list_all (\<lambda>animal. readable (JObj animal)) (animals st')
              \<longrightarrow> JSON_parse (animals_json st')
                    = Some (JObj [(''animals'', JArr (map JObj (animals st')))])
                  \<and> require_animals (animals_json st') = Some (animals st'))
         \<and> animals_json (snd (post_api_animals body (st\<lparr>animals_json := previous\<rparr>)))
             = animals_json st'"
proof -
  from assms have written:
    "animals_json st' = JSON_stringify (JObj [(''animals'', JArr (map JObj (animals st')))])"
    and grown: "animals st' \<noteq> []"
    and same: "animals_json (snd (post_api_animals body (st\<lparr>animals_json := previous\<rparr>)))
             = animals_json st'"
    by (auto simp: post_api_animals_eq Let_def split: if_splits)
  have reread: "JSON_parse (animals_json st')
                    = Some (JObj [(''animals'', JArr (map JObj (animals st')))])
                  \<and> require_animals (animals_json st') = Some (animals st')"
    if ok: "list_all (\<lambda>animal. readable (JObj animal)) (animals st')"
  proof -
    from ok have "readable (JObj [(''animals'', JArr (map JObj (animals st')))])"
      by (simp add: list_all_iff)
    then show ?thesis
      unfolding written using ok by (simp add: JSON_parse_stringify require_animals_stringify)
  qed
  from written stringify_store [OF grown] reread same show ?thesis
    by simp
qed

text \<open>
  The theorem at Nala and the store of Rex: the route answers with the record, the
  file is the text spelled out above, and reading that text gives both records.
\<close>

theorem post_api_animals_file_witness:
  "post_api_animals nala seed
     = (Json (JObj (set_prop nala ''id'' (JStr ''1''))), snd (post_api_animals nala seed))
   \<and> animals (snd (post_api_animals nala seed)) = [rex, set_prop nala ''id'' (JStr ''1'')]
   \<and> list_all (\<lambda>animal. readable (JObj animal)) (animals (snd (post_api_animals nala seed)))
   \<and> animals_json (snd (post_api_animals nala seed)) = example_file
   \<and> require_animals example_file = Some [rex, set_prop nala ''id'' (JStr ''1'')]"
proof -
  let ?st' = "snd (post_api_animals nala seed)"
  have h: "post_api_animals nala seed = (Json (JObj (set_prop nala ''id'' (JStr ''1''))), ?st')"
    by (simp add: post_nala_seed)
  have store: "animals ?st' = [rex, set_prop nala ''id'' (JStr ''1'')]"
    by (simp add: post_nala_seed)
  from readable_rex_nala have ok: "list_all (\<lambda>animal. readable (JObj animal)) (animals ?st')"
    by (simp only: store)
  note facts = post_api_animals_file [OF h]
  from facts have "animals_json ?st'
      = JSON_stringify (JObj [(''animals'', JArr (map JObj (animals ?st')))])"
    by (rule conjunct1)
  then have content: "animals_json ?st' = example_file"
    by (simp add: store example_file_text)
  from facts ok have "require_animals (animals_json ?st') = Some (animals ?st')"
    by blast
  then have "require_animals example_file = Some [rex, set_prop nala ''id'' (JStr ''1'')]"
    by (simp only: content store)
  with h store ok content show ?thesis
    by blast
qed

section \<open>Filtering\<close>

lemma filterByQuery_no_criteria:
  assumes "\<not> truthy (get query ''personalityTraits'')" "\<not> truthy (get query ''diet'')"
    "\<not> truthy (get query ''species'')" "\<not> truthy (get query ''name'')"
  shows "filterByQuery query animalsArray = Inr animalsArray"
  using assms by (simp add: filterByQuery_def)

lemma filterByQuery_cong:
  assumes "\<forall>k\<in>set recognized. get query k = get query' k"
  shows "filterByQuery query animalsArray = filterByQuery query' animalsArray"
proof -
  from assms have eqs:
    "get query ''personalityTraits'' = get query' ''personalityTraits''"
    "get query ''diet'' = get query' ''diet''"
    "get query ''species'' = get query' ''species''"
    "get query ''name'' = get query' ''name''"
    by (simp_all add: recognized_def)
  show ?thesis
    unfolding filterByQuery_def eqs by (rule refl)
qed

text \<open>
  C8. A query with none of the keys \<^verbatim>\<open>personalityTraits\<close>, \<^verbatim>\<open>diet\<close>, \<^verbatim>\<open>species\<close>,
  \<^verbatim>\<open>name\<close> gets the whole store back, in order, from \<open>filterByQuery\<close> and from the GET
  route; and adding or changing any other key of any query changes nothing.
\<close>

theorem filterByQuery_unrecognized:
  assumes "\<forall>k\<in>set recognized. get query k = None"
  shows "filterByQuery query animalsArray = Inr animalsArray
         \<and> get_api_animals query st = Json (JArr (map JObj (animals st)))
         \<and> (\<forall>k v. k \<notin> set recognized \<longrightarrow>
               filterByQuery (set_prop query' k v) animalsArray = filterByQuery query' animalsArray)"
proof -
  from assms have none: "\<And>xs. filterByQuery query xs = Inr xs"
    by (intro filterByQuery_no_criteria) (simp_all add: recognized_def)
  have "filterByQuery (set_prop query' k v) animalsArray = filterByQuery query' animalsArray"
    if "k \<notin> set recognized" for k v
    using that by (intro filterByQuery_cong) (auto simp: get_set_prop)
  with none show ?thesis
    by (simp add: get_api_animals_def)
qed

theorem filterByQuery_unrecognized_witness:
  "list_all (\<lambda>k. get [(''colour'', JStr ''brown'')] k = None) recognized
   \<and> filterByQuery [(''colour'', JStr ''brown'')] [rex, milo] = Inr [rex, milo]
   \<and> get_api_animals [(''colour'', JStr ''brown'')] seed = Json (JArr [JObj rex])"
proof -
  have h: "\<forall>k\<in>set recognized. get [(''colour'', JStr ''brown'')] k = None"
    by (simp add: recognized_def get_def)
  show ?thesis
    using h filterByQuery_unrecognized [OF h, of "[rex, milo]" seed]
    by (simp add: seed_def list_all_iff)
qed

text \<open>
  Under the invariant that every record has a \<^verbatim>\<open>personalityTraits\<close> array, reading
  \<^verbatim>\<open>indexOf\<close> never throws, and the loop over the traits is one filter.
\<close>

lemma indexOf_found_array:
  "has_traits_array animal \<Longrightarrow>
   indexOf_found (get animal ''personalityTraits'') trait
     = Inr (list_ex (\<lambda>x. strict_eq (Some x) (Some trait)) (record_traits animal))"
  by (auto simp: has_traits_array_def record_traits_def split: option.splits jsval.splits)

lemma filter_trait_array:
  "list_all has_traits_array animalsArray \<Longrightarrow>
   filter_trait trait animalsArray
     = Inr (filter (\<lambda>animal. list_ex (\<lambda>x. strict_eq (Some x) (Some trait)) (record_traits animal))
              animalsArray)"
  by (induction animalsArray) (simp_all add: indexOf_found_array)

lemma list_all_filter: "list_all P xs \<Longrightarrow> list_all P (filter Q xs)"
  by (simp add: list_all_iff)

lemma forEach_trait_array:
  "list_all has_traits_array animalsArray \<Longrightarrow>
   forEach_trait traits animalsArray
     = Inr (filter (\<lambda>animal. list_all (\<lambda>trait.
                list_ex (\<lambda>x. strict_eq (Some x) (Some trait)) (record_traits animal)) traits)
              animalsArray)"
proof (induction traits arbitrary: animalsArray)
  case Nil
  then show ?case by simp
next
  case (Cons trait traits)
  let ?kept = "filter (\<lambda>animal. list_ex (\<lambda>x. strict_eq (Some x) (Some trait)) (record_traits animal))
                 animalsArray"
  from Cons.prems have "list_all has_traits_array ?kept"
    by (rule list_all_filter)
  then have "forEach_trait traits ?kept
     = Inr (filter (\<lambda>animal. list_all (\<lambda>trait.
                list_ex (\<lambda>x. strict_eq (Some x) (Some trait)) (record_traits animal)) traits) ?kept)"
    by (rule Cons.IH)
  with Cons.prems show ?case
    by (simp add: filter_trait_array conj_commute)
qed

lemma list_ex_strict_eq_string:
  "list_ex (\<lambda>x. strict_eq (Some x) (Some (JStr s))) xs \<longleftrightarrow> JStr s \<in> set xs"
  by (simp add: list_ex_iff strict_eq_JStr)

lemma list_ex_strict_eq_is_string:
  "is_string t \<Longrightarrow> list_ex (\<lambda>x. strict_eq (Some x) (Some t)) xs \<longleftrightarrow> t \<in> set xs"
  by (cases t) (simp_all add: list_ex_strict_eq_string)

lemma forEach_trait_strings:
  assumes "list_all has_traits_array animalsArray" "list_all is_string traits"
  shows "forEach_trait traits animalsArray
     = Inr (filter (\<lambda>animal. list_all (\<lambda>t. t \<in> set (record_traits animal)) traits) animalsArray)"
proof -
  have "list_all (\<lambda>trait. list_ex (\<lambda>x. strict_eq (Some x) (Some trait)) (record_traits animal)) traits
        = list_all (\<lambda>t. t \<in> set (record_traits animal)) traits" for animal
    using assms(2) by (simp add: list_all_iff list_ex_strict_eq_is_string)
  with assms(1) show ?thesis
    by (simp add: forEach_trait_array)
qed

text \<open>
  The stages of \<open>filterByQuery\<close> against the criteria of the specification.
\<close>

lemma field_filter_spec:
  "query_value_ok (get query k) \<Longrightarrow>
   (if truthy (get query k) then filter (\<lambda>animal. strict_eq (get animal k) (get query k)) xs else xs)
     = filter (spec_field_criterion k query) xs"
proof (cases "get query k")
  case None
  then show ?thesis by (simp add: spec_field_criterion_def [abs_def])
next
  case (Some v)
  assume "query_value_ok (get query k)"
  with Some show ?thesis
    by (cases v) (auto simp: spec_field_criterion_def [abs_def] strict_eq_JStr)
qed

lemma traits_stage_spec:
  assumes "query_value_ok (get query ''personalityTraits'')" "list_all has_traits_array animalsArray"
  shows "(if truthy (get query ''personalityTraits'') then
           (case get query ''personalityTraits'' of
              Some (JStr s) \<Rightarrow> forEach_trait [JStr s] animalsArray
            | Some (JArr personalityTraitsArray) \<Rightarrow>
                forEach_trait personalityTraitsArray animalsArray
            | _ \<Rightarrow> Inl (TypeError forEach_is_not_a_function))
         else Inr animalsArray) = Inr (filter (spec_trait_criterion query) animalsArray)"
proof (cases "get query ''personalityTraits''")
  case None
  then show ?thesis by (simp add: spec_trait_criterion_def [abs_def])
next
  case (Some v)
  with assms show ?thesis
    by (cases v)
      (auto simp: spec_trait_criterion_def [abs_def] forEach_trait_strings
            simp del: forEach_trait.simps)
qed

lemma filterByQuery_spec:
  assumes "query_ok query" "list_all has_traits_array animalsArray"
  shows "filterByQuery query animalsArray = Inr (filter (spec_matches query) animalsArray)"
proof -
  from assms(1) have ok:
    "query_value_ok (get query ''personalityTraits'')" "query_value_ok (get query ''diet'')"
    "query_value_ok (get query ''species'')" "query_value_ok (get query ''name'')"
    by (simp_all add: query_ok_def recognized_def)
  have "spec_matches query = (\<lambda>animal. spec_trait_criterion query animal \<and>
     spec_field_criterion ''diet'' query animal \<and>
     spec_field_criterion ''species'' query animal \<and> spec_field_criterion ''name'' query animal)"
    by (simp add: spec_matches_def fun_eq_iff)
  then show ?thesis
    unfolding filterByQuery_def traits_stage_spec [OF ok(1) assms(2)] Let_def
      field_filter_spec [OF ok(2)] field_filter_spec [OF ok(3)] field_filter_spec [OF ok(4)]
    by (simp add: conj_commute conj_left_commute cong: filter_cong)
qed

lemma get_delete: "get (AList.delete k ob) k' = (if k' = k then None else get ob k')"
  by (simp add: get_def delete_conv')

lemma filterByQuery_traits_first:
  assumes "truthy (get query ''personalityTraits'')"
    and "get query ''personalityTraits'' = Some (JStr s) \<and> traits = [JStr s]
         \<or> get query ''personalityTraits'' = Some (JArr traits)"
    and "forEach_trait traits animalsArray = Inr kept"
  shows "filterByQuery query animalsArray
           = filterByQuery (AList.delete ''personalityTraits'' query) kept"
  using assms unfolding filterByQuery_def get_delete
  by (auto simp del: forEach_trait.simps)

lemma list_all_JStr: "list_all is_string (map JStr ts)"
  by (simp add: list_all_iff)

lemma forEach_trait_JStr:
  assumes "list_all has_traits_array animalsArray"
  shows "forEach_trait (map JStr ts) animalsArray
     = Inr (filter (\<lambda>animal. \<forall>t\<in>set ts. JStr t \<in> set (record_traits animal)) animalsArray)"
  using assms by (simp add: forEach_trait_strings list_all_JStr list_all_iff)

lemma filterByQuery_traits_query:
  assumes "list_all has_traits_array animalsArray"
  shows "filterByQuery (traits_query ts) animalsArray
     = Inr (filter (\<lambda>animal. \<forall>t\<in>set ts. JStr t \<in> set (record_traits animal)) animalsArray)"
  using assms
  by (simp add: filterByQuery_def traits_query_def get_def forEach_trait_JStr
           del: forEach_trait.simps)

lemma has_traits_rex_milo: "list_all has_traits_array [rex, set_prop milo ''id'' (JStr ''1'')]"
  by (simp add: has_traits_array_def rex_def milo_def get_def set_prop_def)

text \<open>
  C1, as amended. Let every record of the store have a \<^verbatim>\<open>personalityTraits\<close> array, and
  let the query's \<^verbatim>\<open>personalityTraits\<close> be a non-empty string \<open>s\<close>, requesting \<open>[s]\<close>, or a
  sequence of strings \<open>ts\<close>. Then \<open>filterByQuery\<close> keeps exactly the records that have
  every requested trait among their traits and hands them to the remaining criteria
  of the query; with no other criterion they are the result. The records matching
  several traits are those of the store that match each trait on its own: the
  intersection of the per-trait matches.
\<close>

theorem filterByQuery_personalityTraits:
  assumes "list_all has_traits_array animalsArray"
    and "get query ''personalityTraits'' = Some v"
    and "v = JStr s \<and> s \<noteq> [] \<and> ts = [s] \<or> v = JArr (map JStr ts)"
  shows "filterByQuery query animalsArray
           = filterByQuery (AList.delete ''personalityTraits'' query)
               (filter (\<lambda>animal. \<forall>t\<in>set ts. JStr t \<in> set (record_traits animal)) animalsArray)
         \<and> filterByQuery [(''personalityTraits'', v)] animalsArray
           = Inr (filter (\<lambda>animal. \<forall>t\<in>set ts. JStr t \<in> set (record_traits animal)) animalsArray)
         \<and> matches (filterByQuery (traits_query ts) animalsArray)
           = set animalsArray \<inter> (\<Inter>t\<in>set ts. matches (filterByQuery (traits_query [t]) animalsArray))"
proof -
  let ?kept = "filter (\<lambda>animal. \<forall>t\<in>set ts. JStr t \<in> set (record_traits animal)) animalsArray"
  have each: "forEach_trait (map JStr ts) animalsArray = Inr ?kept"
    using assms(1) by (rule forEach_trait_JStr)
  from assms(2,3) have truthy: "truthy (get query ''personalityTraits'')"
    by auto
  from assms(2,3) have shape:
    "get query ''personalityTraits'' = Some (JStr s) \<and> map JStr ts = [JStr s]
     \<or> get query ''personalityTraits'' = Some (JArr (map JStr ts))"
    by auto
  have first: "filterByQuery query animalsArray
      = filterByQuery (AList.delete ''personalityTraits'' query) ?kept"
    using truthy shape each by (rule filterByQuery_traits_first)
  have only: "filterByQuery [(''personalityTraits'', v)] animalsArray = Inr ?kept"
  proof -
    have "filterByQuery [(''personalityTraits'', v)] animalsArray
        = filterByQuery (AList.delete ''personalityTraits'' [(''personalityTraits'', v)]) ?kept"
      using assms(3) each
      by (intro filterByQuery_traits_first [where traits = "map JStr ts" and s = s])
         (auto simp: get_def)
    also have "\<dots> = Inr ?kept"
      by (simp add: filterByQuery_def get_def)
    finally show ?thesis .
  qed
  have inter: "matches (filterByQuery (traits_query ts) animalsArray)
      = set animalsArray \<inter> (\<Inter>t\<in>set ts. matches (filterByQuery (traits_query [t]) animalsArray))"
    using assms(1) by (auto simp: filterByQuery_traits_query)
  from first only inter show ?thesis by blast
qed

theorem filterByQuery_personalityTraits_witness:
  "list_all has_traits_array [rex, set_prop milo ''id'' (JStr ''1'')]
   \<and> filterByQuery [(''personalityTraits'', JStr ''aloof'')] [rex, set_prop milo ''id'' (JStr ''1'')]
       = Inr [set_prop milo ''id'' (JStr ''1'')]
   \<and> filterByQuery [(''personalityTraits'', JArr [JStr ''aloof'', JStr ''loyal''])]
        [rex, set_prop milo ''id'' (JStr ''1'')] = Inr []"
proof -
  have g1: "get [(''personalityTraits'', JStr ''aloof'')] ''personalityTraits'' = Some (JStr ''aloof'')"
    by (simp add: get_def)
  have s1: "JStr ''aloof'' = JStr ''aloof'' \<and> ''aloof'' \<noteq> [] \<and> [''aloof''] = [''aloof'']
            \<or> JStr ''aloof'' = JArr (map JStr [''aloof''])"
    by simp
  have g2: "get [(''personalityTraits'', JArr [JStr ''aloof'', JStr ''loyal''])] ''personalityTraits''
              = Some (JArr [JStr ''aloof'', JStr ''loyal''])"
    by (simp add: get_def)
  have s2: "JArr [JStr ''aloof'', JStr ''loyal''] = JStr [] \<and> [] \<noteq> [] \<and> [''aloof'', ''loyal''] = [[]]
            \<or> JArr [JStr ''aloof'', JStr ''loyal''] = JArr (map JStr [''aloof'', ''loyal''])"
    by simp
  have traits: "record_traits rex = [JStr ''loyal'']"
    "record_traits (set_prop milo ''id'' (JStr ''1'')) = [JStr ''aloof'', JStr ''independent'']"
    by (simp_all add: record_traits_def rex_def milo_def set_prop_def get_def)
  from filterByQuery_personalityTraits [OF has_traits_rex_milo g1 s1, THEN conjunct2, THEN conjunct1]
  have one: "filterByQuery [(''personalityTraits'', JStr ''aloof'')]
               [rex, set_prop milo ''id'' (JStr ''1'')] = Inr [set_prop milo ''id'' (JStr ''1'')]"
    by (simp add: traits)
  from filterByQuery_personalityTraits [OF has_traits_rex_milo g2 s2, THEN conjunct2, THEN conjunct1]
  have two: "filterByQuery [(''personalityTraits'', JArr [JStr ''aloof'', JStr ''loyal''])]
               [rex, set_prop milo ''id'' (JStr ''1'')] = Inr []"
    by (simp add: traits)
  from has_traits_rex_milo one two show ?thesis by simp
qed

text \<open>
  The claim as worded fails for the empty string: it is a string, the one requested
  trait would be \<^verbatim>\<open>""\<close>, which is not among the traits of the record, and the record
  is kept, because \<^verbatim>\<open>if (query.personalityTraits)\<close> skips a falsy value.
\<close>

theorem filterByQuery_empty_trait_counterexample:
  "filterByQuery [(''personalityTraits'', JStr [])] [rex] = Inr [rex]
   \<and> JStr [] \<notin> set (record_traits rex)"
  by (simp add: filterByQuery_def get_def record_traits_def rex_def)

text \<open>
  C5, as amended. For a query whose recognized values are strings or sequences of
  strings, on a store whose records all have a \<^verbatim>\<open>personalityTraits\<close> array, the result
  is the store filtered by the conjunction of the criteria: the records that meet
  every recognized criterion whose value is not the empty string, in the order of
  the store, a subsequence of it, with no record repeated that the store does not
  repeat. \<^verbatim>\<open>diet\<close>, \<^verbatim>\<open>species\<close> and \<^verbatim>\<open>name\<close> are compared with the record's field by
  equality of strings. The GET route answers with that list.
\<close>

theorem filterByQuery_conjunctive:
  assumes "query_ok query" "list_all has_traits_array animalsArray"
  shows "\<exists>results. filterByQuery query animalsArray = Inr results
           \<and> results = filter (spec_matches query) animalsArray
           \<and> set results = {animal \<in> set animalsArray. spec_matches query animal}
           \<and> subseq results animalsArray
           \<and> (distinct animalsArray \<longrightarrow> distinct results)
           \<and> get_api_animals query (st\<lparr>animals := animalsArray\<rparr>) = Json (JArr (map JObj results))"
  using assms by (simp add: filterByQuery_spec get_api_animals_def)

theorem filterByQuery_conjunctive_witness:
  "query_ok [(''diet'', JStr ''omnivore''), (''personalityTraits'', JStr ''loyal'')]
   \<and> list_all has_traits_array [rex, set_prop milo ''id'' (JStr ''1'')]
   \<and> filterByQuery [(''diet'', JStr ''omnivore''), (''personalityTraits'', JStr ''loyal'')]
        [rex, set_prop milo ''id'' (JStr ''1'')] = Inr [rex]"
proof -
  have q: "query_ok [(''diet'', JStr ''omnivore''), (''personalityTraits'', JStr ''loyal'')]"
    by (simp add: query_ok_def recognized_def get_def)
  show ?thesis
    using q has_traits_rex_milo filterByQuery_conjunctive [OF q has_traits_rex_milo]
    by (simp add: spec_matches_def spec_trait_criterion_def spec_field_criterion_def
                  record_traits_def get_def rex_def milo_def set_prop_def)
qed

text \<open>
  The claim as worded fails for a criterion that is the empty string: the query
  supplies \<^verbatim>\<open>diet\<close>, the record's diet is not equal to it, and the record is returned.
\<close>

theorem filterByQuery_empty_diet_counterexample:
  "filterByQuery [(''diet'', JStr [])] [rex] = Inr [rex]
   \<and> get rex ''diet'' \<noteq> Some (JStr [])"
  by (simp add: filterByQuery_def get_def rex_def)

text \<open>A valid candidate has a traits array, so the POST route keeps the invariant.\<close>

lemma post_api_animals_keeps_traits:
  assumes "list_all has_traits_array (animals st)"
  shows "list_all has_traits_array (animals (snd (post_api_animals body st)))"
proof (cases "validateAnimal body")
  case False
  with assms show ?thesis by (simp add: post_api_animals_eq)
next
  case True
  then have "has_traits_array (set_prop body ''id'' v)" for v
    by (auto simp: has_traits_array_def validateAnimal_def Array_isArray_iff get_set_prop
             split: if_splits)
  with True assms show ?thesis
    by (simp add: post_api_animals_eq Let_def)
qed

text \<open>
  C10. On a store whose records all have a \<^verbatim>\<open>personalityTraits\<close> array, the unguarded
  read \<^verbatim>\<open>animal.personalityTraits.indexOf(trait)\<close> returns for every record and every
  trait, so \<open>filterByQuery\<close> never ends in either of the two errors of that read: the
  only exception left is the call of \<^verbatim>\<open>forEach\<close> on a query value that is neither a
  string nor an array, and for every other query the filter returns a list.
\<close>

theorem filterByQuery_traits_read_safe:
  assumes "list_all has_traits_array animalsArray"
  shows "(\<forall>animal\<in>set animalsArray. \<forall>trait.
            indexOf_found (get animal ''personalityTraits'') trait
              = Inr (list_ex (\<lambda>x. strict_eq (Some x) (Some trait)) (record_traits animal)))
         \<and> (\<forall>e. filterByQuery query animalsArray = Inl e \<longrightarrow> e = TypeError forEach_is_not_a_function)
         \<and> ((\<exists>results. filterByQuery query animalsArray = Inr results)
              \<longleftrightarrow> \<not> truthy (get query ''personalityTraits'')
                  \<or> typeof (get query ''personalityTraits'') = ''string''
                  \<or> Array_isArray (get query ''personalityTraits''))"
proof -
  have reads: "\<forall>animal\<in>set animalsArray. \<forall>trait.
            indexOf_found (get animal ''personalityTraits'') trait
              = Inr (list_ex (\<lambda>x. strict_eq (Some x) (Some trait)) (record_traits animal))"
    using assms by (simp add: list_all_iff indexOf_found_array)
  have outcome: "(\<forall>e. filterByQuery query animalsArray = Inl e \<longrightarrow> e = TypeError forEach_is_not_a_function)
         \<and> ((\<exists>results. filterByQuery query animalsArray = Inr results)
              \<longleftrightarrow> \<not> truthy (get query ''personalityTraits'')
                  \<or> typeof (get query ''personalityTraits'') = ''string''
                  \<or> Array_isArray (get query ''personalityTraits''))"
  proof (cases "get query ''personalityTraits''")
    case None
    then show ?thesis
      by (simp add: filterByQuery_def Let_def)
  next
    case (Some v)
    with assms show ?thesis
      by (cases v)
        (simp_all add: filterByQuery_def Let_def forEach_trait_array del: forEach_trait.simps)
  qed
  from reads outcome show ?thesis by blast
qed

theorem filterByQuery_traits_read_safe_witness:
  "list_all has_traits_array [rex, set_prop milo ''id'' (JStr ''1'')]
   \<and> indexOf_found (get rex ''personalityTraits'') (JStr ''loyal'') = Inr True
   \<and> filterByQuery [(''personalityTraits'', JObj [])] [rex, set_prop milo ''id'' (JStr ''1'')]
       = Inl (TypeError forEach_is_not_a_function)"
proof -
  note safe = filterByQuery_traits_read_safe [OF has_traits_rex_milo]
  from safe have "indexOf_found (get rex ''personalityTraits'') (JStr ''loyal'')
      = Inr (list_ex (\<lambda>x. strict_eq (Some x) (Some (JStr ''loyal''))) (record_traits rex))"
    by simp
  then have a: "indexOf_found (get rex ''personalityTraits'') (JStr ''loyal'') = Inr True"
    by (simp add: record_traits_def rex_def get_def)
  have "\<not> (\<exists>results. filterByQuery [(''personalityTraits'', JObj [])]
              [rex, set_prop milo ''id'' (JStr ''1'')] = Inr results)"
    using safe [of "[(''personalityTraits'', JObj [])]"] by (simp add: get_def)
  then obtain e where "filterByQuery [(''personalityTraits'', JObj [])]
              [rex, set_prop milo ''id'' (JStr ''1'')] = Inl e"
    by (cases "filterByQuery [(''personalityTraits'', JObj [])]
              [rex, set_prop milo ''id'' (JStr ''1'')]") auto
  with safe [of "[(''personalityTraits'', JObj [])]"]
  have b: "filterByQuery [(''personalityTraits'', JObj [])]
              [rex, set_prop milo ''id'' (JStr ''1'')] = Inl (TypeError forEach_is_not_a_function)"
    by simp
  from has_traits_rex_milo a b show ?thesis by simp
qed

section \<open>Looking a record up\<close>

lemma findById_None_iff:
  "findById id' animalsArray = None
     \<longleftrightarrow> (\<forall>animal\<in>set animalsArray. get animal ''id'' \<noteq> Some (JStr id'))"
proof -
  have "findById id' animalsArray = None
      \<longleftrightarrow> filter (\<lambda>animal. strict_eq (get animal ''id'') (Some (JStr id'))) animalsArray = []"
    by (simp add: findById_def split: list.splits)
  then show ?thesis
    by (simp add: filter_empty_conv strict_eq_JStr)
qed

lemma findById_Some_iff:
  "findById id' animalsArray = Some result
     \<longleftrightarrow> (\<exists>before after. animalsArray = before @ result # after
            \<and> get result ''id'' = Some (JStr id')
            \<and> (\<forall>animal\<in>set before. get animal ''id'' \<noteq> Some (JStr id')))"
  (is "?lhs \<longleftrightarrow> ?rhs")
proof
  let ?P = "\<lambda>animal. strict_eq (get animal ''id'') (Some (JStr id'))"
  assume ?lhs
  then obtain rest where "filter ?P animalsArray = result # rest"
    by (auto simp: findById_def split: list.splits)
  then obtain before after where "animalsArray = before @ result # after"
    "\<forall>animal\<in>set before. \<not> ?P animal" "?P result"
    by (auto simp: filter_eq_Cons_iff)
  then show ?rhs
    by (auto simp: strict_eq_JStr)
next
  let ?P = "\<lambda>animal. strict_eq (get animal ''id'') (Some (JStr id'))"
  assume ?rhs
  then obtain before after where split: "animalsArray = before @ result # after"
    and hit: "get result ''id'' = Some (JStr id')"
    and miss: "\<forall>animal\<in>set before. get animal ''id'' \<noteq> Some (JStr id')"
    by blast
  from miss have "filter ?P before = []"
    by (simp add: filter_empty_conv strict_eq_JStr)
  with split hit have "filter ?P animalsArray = result # filter ?P after"
    by (simp add: strict_eq_JStr)
  then show ?lhs
    by (simp add: findById_def)
qed

text \<open>
  C7. \<open>findById\<close> returns a value for every id and every store. It is \<^verbatim>\<open>undefined\<close>
  exactly when no record has the id, and it is a record exactly when that record
  has the id and no record before it in the store has. The GET route answers with
  the record, and with status 404 when there is none.
\<close>

theorem findById_first:
  "(findById id' animalsArray = None
      \<longleftrightarrow> (\<forall>animal\<in>set animalsArray. get animal ''id'' \<noteq> Some (JStr id')))
   \<and> (\<forall>result. findById id' animalsArray = Some result
      \<longleftrightarrow> (\<exists>before after. animalsArray = before @ result # after
            \<and> get result ''id'' = Some (JStr id')
            \<and> (\<forall>animal\<in>set before. get animal ''id'' \<noteq> Some (JStr id'))))
   \<and> get_api_animals_id id' st
       = (case findById id' (animals st) of Some result \<Rightarrow> Json (JObj result) | None \<Rightarrow> Send 404)"
  using findById_None_iff findById_Some_iff by (simp add: get_api_animals_id_def)

theorem findById_first_witness:
  "findById ''7'' [rex] = None \<and> get_api_animals_id ''7'' seed = Send 404
   \<and> findById ''0'' [rex, set_prop milo ''id'' (JStr ''0'')] = Some rex"
proof -
  note absent = findById_first [of "''7''" "[rex]" seed]
  note present = findById_first [of "''0''" "[rex, set_prop milo ''id'' (JStr ''0'')]" seed]
  from absent have a: "findById ''7'' [rex] = None"
    by (simp add: rex_def get_def)
  with absent have b: "get_api_animals_id ''7'' seed = Send 404"
    by (simp add: seed_def)
  have "\<exists>before after. [rex, set_prop milo ''id'' (JStr ''0'')] = before @ rex # after
          \<and> get rex ''id'' = Some (JStr ''0'')
          \<and> (\<forall>animal\<in>set before. get animal ''id'' \<noteq> Some (JStr ''0''))"
    by (intro exI [of _ "[]"] exI [of _ "[set_prop milo ''id'' (JStr ''0'')]"])
       (simp add: rex_def get_def)
  with present have c: "findById ''0'' [rex, set_prop milo ''id'' (JStr ''0'')] = Some rex"
    by blast
  from a b c show ?thesis by simp
qed

lemma findById_snoc_fresh:
  assumes "\<forall>animal\<in>set animalsArray. get animal ''id'' \<noteq> Some (JStr id')"
    and "get result ''id'' = Some (JStr id')"
  shows "findById id' (animalsArray @ [result]) = Some result"
  using assms by (simp add: findById_def strict_eq_JStr filter_empty_conv [THEN iffD2])

lemma ids_sequential_fresh:
  assumes "ids_sequential animalsArray"
  shows "\<forall>animal\<in>set animalsArray.
           get animal ''id'' \<noteq> Some (JStr (nat_toString (length animalsArray)))"
proof
  fix animal
  assume "animal \<in> set animalsArray"
  then have "get animal ''id'' \<in> set (ids animalsArray)"
    by (simp add: ids_def)
  with assms obtain i where "i < length animalsArray"
    "get animal ''id'' = Some (JStr (nat_toString i))"
    by (auto simp: ids_sequential_def)
  then show "get animal ''id'' \<noteq> Some (JStr (nat_toString (length animalsArray)))"
    by (auto dest: nat_toString_inj)
qed

lemma ids_sequential_snoc:
  assumes "ids_sequential animalsArray"
    and "get animal ''id'' = Some (JStr (nat_toString (length animalsArray)))"
  shows "ids_sequential (animalsArray @ [animal])"
  using assms by (simp add: ids_sequential_def ids_def)

lemma ids_sequential_distinct:
  assumes "ids_sequential animalsArray"
  shows "distinct (ids animalsArray)"
proof -
  have "inj_on (\<lambda>i. Some (JStr (nat_toString i))) (set [0..<length animalsArray])"
    by (auto intro!: inj_onI dest: nat_toString_inj)
  then have "distinct (map (\<lambda>i. Some (JStr (nat_toString i))) [0..<length animalsArray])"
    by (simp add: distinct_map)
  with assms show ?thesis
    by (simp add: ids_sequential_def)
qed

text \<open>
  C6, as amended. Let the candidate be valid and the file writable, and let no
  record of the store have the decimal string of the store's length as its id, as
  in every store numbered in sequence. Then the POST route answers with a record
  whose id is that string, \<open>findById\<close> on that id in the new store returns this very
  record, and so does the GET route. A store numbered in sequence stays so.
\<close>

theorem post_then_findById:
  assumes "validateAnimal body" and "\<not> write_fails st"
    and "ids_sequential (animals st)
         \<or> (\<forall>animal\<in>set (animals st).
               get animal ''id'' \<noteq> Some (JStr (nat_toString (length (animals st)))))"
  shows "\<exists>animal st'. post_api_animals body st = (Json (JObj animal), st')
           \<and> get animal ''id'' = Some (JStr (nat_toString (length (animals st))))
           \<and> findById (nat_toString (length (animals st))) (animals st') = Some animal
           \<and> get_api_animals_id (nat_toString (length (animals st))) st' = Json (JObj animal)
           \<and> (ids_sequential (animals st) \<longrightarrow> ids_sequential (animals st'))"
proof -
  let ?id = "nat_toString (length (animals st))"
  let ?animal = "set_prop body ''id'' (JStr ?id)"
  let ?st' = "st\<lparr>animals := animals st @ [?animal],
                  animals_json :=
                    JSON_stringify (JObj [(''animals'', JArr (map JObj (animals st @ [?animal])))])\<rparr>"
  from assms(3) have fresh:
    "\<forall>animal\<in>set (animals st). get animal ''id'' \<noteq> Some (JStr ?id)"
    using ids_sequential_fresh by blast
  have id: "get ?animal ''id'' = Some (JStr ?id)"
    by (simp add: get_set_prop)
  from assms(1,2) have post: "post_api_animals body st = (Json (JObj ?animal), ?st')"
    by (simp add: post_api_animals_eq Let_def)
  from fresh id have found: "findById ?id (animals ?st') = Some ?animal"
    by (simp add: findById_snoc_fresh)
  then have route: "get_api_animals_id ?id ?st' = Json (JObj ?animal)"
    by (simp add: get_api_animals_id_def)
  have seq: "ids_sequential (animals st) \<longrightarrow> ids_sequential (animals ?st')"
    using id by (simp add: ids_sequential_snoc)
  from post id found route seq show ?thesis by blast
qed

theorem post_then_findById_witness:
  "validateAnimal milo \<and> \<not> write_fails seed \<and> ids_sequential (animals seed)
   \<and> post_api_animals milo seed
       = (Json (JObj (set_prop milo ''id'' (JStr ''1''))), snd (post_api_animals milo seed))
   \<and> findById ''1'' (animals (snd (post_api_animals milo seed)))
       = Some (set_prop milo ''id'' (JStr ''1''))"
proof -
  have w: "\<not> write_fails seed"
    by (simp add: seed_def)
  have "nat_toString 0 = ''0''" by code_simp
  then have s: "ids_sequential (animals seed)"
    by (simp add: ids_sequential_def ids_def seed_def rex_def get_def)
  then have s': "ids_sequential (animals seed)
      \<or> (\<forall>animal\<in>set (animals seed).
            get animal ''id'' \<noteq> Some (JStr (nat_toString (length (animals seed)))))"
    by (rule disjI1)
  have len: "nat_toString (length (animals seed)) = ''1''"
    by (simp add: seed_def nat_toString_1)
  from post_then_findById [OF validateAnimal_milo w s'] validateAnimal_milo w s
  show ?thesis
    by (auto simp: len post_milo_seed)
qed

text \<open>
  The claim as worded fails on a store whose ids are unique but not the indices:
  the one stored record has id \<^verbatim>\<open>"1"\<close>, the new record gets the id \<^verbatim>\<open>"1"\<close> too, and the
  lookup returns the older record.
\<close>

theorem post_then_findById_counterexample:
  "distinct (ids (animals renumbered)) \<and> validateAnimal milo \<and> \<not> write_fails renumbered
   \<and> fst (post_api_animals milo renumbered) = Json (JObj (set_prop milo ''id'' (JStr ''1'')))
   \<and> findById ''1'' (animals (snd (post_api_animals milo renumbered)))
       = Some (set_prop rex ''id'' (JStr ''1''))
   \<and> set_prop rex ''id'' (JStr ''1'') \<noteq> set_prop milo ''id'' (JStr ''1'')"
  by (simp add: post_api_animals_eq validateAnimal_milo renumbered_def nat_toString_1 Let_def
                ids_def findById_def get_set_prop)
     (simp add: rex_def milo_def set_prop_def)

end
